theory Spec2Isabelle
  imports Complex_Main
begin

section \<open>Python values and built-ins used by Bandit.py\<close>

text \<open>
  Numbers are modelled exactly: rewards, true means, estimates and \<open>epsilon\<close> are
  rationals, counters and Beta pseudo-counts are unbounded integers. The rounding of
  Python's floats is therefore not part of this development; every statement below is
  about the arithmetic the code asks for, carried out without rounding.

  A method of the source becomes a function from the object (\<open>self\<close>, first argument)
  and the arguments to a pair: what the call returned or raised, and the object as the
  call left it. An exception leaves the object as mutated so far.
\<close>

datatype error = IndexError | ValueError | ZeroDivisionError

text \<open>
  Subscripting \<open>xs[i]\<close>: an index from \<open>-len(xs)\<close> up to \<open>-1\<close> counts from the end,
  anything outside \<open>-len(xs) .. len(xs) - 1\<close> raises IndexError.
\<close>

definition list_pos :: "'a list \<Rightarrow> int \<Rightarrow> error + nat" where
  "list_pos xs i =
     (if 0 \<le> i \<and> i < int (length xs) then Inr (nat i)
      else if i < 0 \<and> - int (length xs) \<le> i then Inr (nat (i + int (length xs)))
      else Inl IndexError)"

definition getitem :: "'a list \<Rightarrow> int \<Rightarrow> error + 'a" where
  "getitem xs i = (case list_pos xs i of Inl e \<Rightarrow> Inl e | Inr p \<Rightarrow> Inr (xs ! p))"

definition setitem :: "'a list \<Rightarrow> int \<Rightarrow> 'a \<Rightarrow> error + 'a list" where
  "setitem xs i v = (case list_pos xs i of Inl e \<Rightarrow> Inl e | Inr p \<Rightarrow> Inr (xs[p := v]))"

text \<open>\<open>max(xs)\<close> raises ValueError on an empty list.\<close>

fun max_list :: "rat list \<Rightarrow> error + rat" where
  "max_list [] = Inl ValueError"
| "max_list (x # xs) = Inr (fold max xs x)"

text \<open>\<open>xs.index(y)\<close>: the first position holding \<open>y\<close>, ValueError when there is none.\<close>

fun list_index :: "rat list \<Rightarrow> rat \<Rightarrow> error + int" where
  "list_index [] y = Inl ValueError"
| "list_index (x # xs) y =
     (if x = y then Inr 0
      else case list_index xs y of Inl e \<Rightarrow> Inl e | Inr i \<Rightarrow> Inr (i + 1))"

subsection \<open>The random module\<close>

text \<open>
  The process-wide random source is an input of the model: each call of \<open>pull\<close> is
  given the raw outcomes of the draws it makes, and the three library functions map a
  raw outcome into the range their documentation promises. Every value of the range is
  the image of some raw outcome (lemmas \<open>random_random_onto\<close>, \<open>randint_onto\<close>), so
  quantifying over raw outcomes is quantifying over everything the library may return.

  \<^item> \<open>random.random()\<close> returns a number in \<open>[0, 1)\<close>.
  \<^item> \<open>random.randint(a, b)\<close> returns an integer in \<open>[a, b]\<close> and raises ValueError when
    the range is empty.
  \<^item> \<open>random.betavariate(a, b)\<close> raises ValueError unless both shape parameters are
    positive; the sample itself is taken as given.
\<close>

definition random_random :: "rat \<Rightarrow> rat" where
  "random_random raw = frac raw"

definition randint :: "int \<Rightarrow> int \<Rightarrow> nat \<Rightarrow> error + int" where
  "randint a b raw = (if b < a then Inl ValueError else Inr (a + int raw mod (b - a + 1)))"

definition betavariate :: "int \<Rightarrow> int \<Rightarrow> rat \<Rightarrow> error + rat" where
  "betavariate a b sample = (if a \<le> 0 \<or> b \<le> 0 then Inl ValueError else Inr sample)"

section \<open>class Bandit\<close>

text \<open>
  \<open>Bandit.__init__\<close> binds \<open>true_means\<close> and creates \<open>estimated_means\<close> and
  \<open>action_counts\<close>, one entry per arm.
\<close>

record bandit =
  true_means :: "rat list"
  estimated_means :: "rat list"
  action_counts :: "int list"

definition Bandit_init :: "rat list \<Rightarrow> bandit" where
  "Bandit_init tm =
     \<lparr>true_means = tm,
      estimated_means = replicate (length tm) 0,
      action_counts = replicate (length tm) 0\<rparr>"

section \<open>class EpsilonGreedy\<close>

record epsilon_greedy = bandit +
  epsilon :: rat
  action_values :: "rat list"

definition EpsilonGreedy_init :: "rat list \<Rightarrow> rat \<Rightarrow> epsilon_greedy" where
  "EpsilonGreedy_init tm eps =
     (let b = Bandit_init tm
      in \<lparr>true_means = tm,
          estimated_means = estimated_means b,
          action_counts = replicate (length tm) 0,
          epsilon = eps,
          action_values = replicate (length tm) 0\<rparr>)"

text \<open>
  The draws of one call of \<open>EpsilonGreedy.pull\<close>: the raw outcome behind
  \<open>random.random()\<close> and the one behind \<open>random.randint\<close> (looked at only when the
  first comparison succeeds).
\<close>

type_synonym eg_draws = "rat \<times> nat"

definition EpsilonGreedy_pull :: "epsilon_greedy \<Rightarrow> eg_draws \<Rightarrow> (error + int) \<times> epsilon_greedy" where
  "EpsilonGreedy_pull s d =
     (if random_random (fst d) < epsilon s
      then (randint 0 (int (length (true_means s)) - 1) (snd d), s)
      else (case max_list (action_values s) of
              Inl e \<Rightarrow> (Inl e, s)
            | Inr m \<Rightarrow> (list_index (action_values s) m, s)))"

text \<open>
  \<open>update\<close>: \<open>action_counts[arm] += 1\<close>, \<open>n = action_counts[arm]\<close>, then
  \<open>action_values[arm] += (1 / n) * (reward - action_values[arm])\<close>. The augmented
  assignment reads its target before it evaluates the right-hand side, so a bad index
  is reported before a division by zero.
\<close>

definition EpsilonGreedy_update ::
  "epsilon_greedy \<Rightarrow> int \<Rightarrow> rat \<Rightarrow> (error + unit) \<times> epsilon_greedy" where
  "EpsilonGreedy_update s arm reward =
     (case getitem (action_counts s) arm of
        Inl e \<Rightarrow> (Inl e, s)
      | Inr c \<Rightarrow>
         (case setitem (action_counts s) arm (c + 1) of
            Inl e \<Rightarrow> (Inl e, s)
          | Inr cs \<Rightarrow>
             (let s1 = s\<lparr>action_counts := cs\<rparr>
              in case getitem (action_counts s1) arm of
                   Inl e \<Rightarrow> (Inl e, s1)
                 | Inr n \<Rightarrow>
                    (case getitem (action_values s1) arm of
                       Inl e \<Rightarrow> (Inl e, s1)
                     | Inr v \<Rightarrow>
                        if n = 0 then (Inl ZeroDivisionError, s1)
                        else (case setitem (action_values s1) arm
                                     (v + (1 / of_int n) * (reward - v)) of
                                Inl e \<Rightarrow> (Inl e, s1)
                              | Inr vs \<Rightarrow> (Inr (), s1\<lparr>action_values := vs\<rparr>))))))"

text \<open>One pass through the body of the loop of \<open>experiment\<close>: pull, read the reward, update.\<close>

definition EpsilonGreedy_trial :: "epsilon_greedy \<Rightarrow> eg_draws \<Rightarrow> (error + rat) \<times> epsilon_greedy" where
  "EpsilonGreedy_trial s d =
     (case EpsilonGreedy_pull s d of
        (Inl e, s1) \<Rightarrow> (Inl e, s1)
      | (Inr arm, s1) \<Rightarrow>
         (case getitem (true_means s1) arm of
            Inl e \<Rightarrow> (Inl e, s1)
          | Inr reward \<Rightarrow>
             (case EpsilonGreedy_update s1 arm reward of
                (Inl e, s2) \<Rightarrow> (Inl e, s2)
              | (Inr u, s2) \<Rightarrow> (Inr reward, s2))))"

text \<open>
  The loop \<open>for _ in range(num_trials)\<close>, by the number of passes made; pass number \<open>n\<close>
  (counting from 0) takes its draws from \<open>tape n\<close> and appends its reward.
\<close>

primrec EpsilonGreedy_trials ::
  "epsilon_greedy \<Rightarrow> (nat \<Rightarrow> eg_draws) \<Rightarrow> nat \<Rightarrow> (error + rat list) \<times> epsilon_greedy" where
  "EpsilonGreedy_trials s tape 0 = (Inr [], s)"
| "EpsilonGreedy_trials s tape (Suc n) =
     (case EpsilonGreedy_trials s tape n of
        (Inl e, s1) \<Rightarrow> (Inl e, s1)
      | (Inr rewards, s1) \<Rightarrow>
         (case EpsilonGreedy_trial s1 (tape n) of
            (Inl e, s2) \<Rightarrow> (Inl e, s2)
          | (Inr reward, s2) \<Rightarrow> (Inr (rewards @ [reward]), s2)))"

definition EpsilonGreedy_experiment ::
  "epsilon_greedy \<Rightarrow> (nat \<Rightarrow> eg_draws) \<Rightarrow> int \<Rightarrow> (error + rat list) \<times> epsilon_greedy" where
  "EpsilonGreedy_experiment s tape num_trials = EpsilonGreedy_trials s tape (nat num_trials)"

text \<open>
  \<open>report\<close> returns a sentence holding \<open>avg_reward\<close> and \<open>avg_regret\<close> printed with two
  decimals; the model returns the two numbers.
\<close>

definition EpsilonGreedy_report :: "epsilon_greedy \<Rightarrow> (error + rat \<times> rat) \<times> epsilon_greedy" where
  "EpsilonGreedy_report s =
     (if length (action_values s) = 0 then (Inl ZeroDivisionError, s)
      else (let avg_reward = sum_list (action_values s) / of_nat (length (action_values s))
            in case max_list (true_means s) of
                 Inl e \<Rightarrow> (Inl e, s)
               | Inr m \<Rightarrow> (Inr (avg_reward, m - avg_reward), s)))"

section \<open>class ThompsonSampling\<close>

record thompson_sampling = bandit +
  alpha :: "int list"
  beta :: "int list"

definition ThompsonSampling_init :: "rat list \<Rightarrow> thompson_sampling" where
  "ThompsonSampling_init tm =
     (let b = Bandit_init tm
      in \<lparr>true_means = true_means b,
          estimated_means = estimated_means b,
          action_counts = action_counts b,
          alpha = replicate (length tm) 1,
          beta = replicate (length tm) 1\<rparr>)"

text \<open>
  The draws of one call of \<open>ThompsonSampling.pull\<close>: for each arm \<open>i\<close> the sample that
  \<open>random.betavariate\<close> produces for it. The list comprehension stops at the first
  exception.
\<close>

type_synonym ts_draws = "nat \<Rightarrow> rat"

fun sampled_means :: "thompson_sampling \<Rightarrow> ts_draws \<Rightarrow> nat list \<Rightarrow> error + rat list" where
  "sampled_means s d [] = Inr []"
| "sampled_means s d (i # is) =
     (case getitem (alpha s) (int i) of
        Inl e \<Rightarrow> Inl e
      | Inr a \<Rightarrow>
         (case getitem (beta s) (int i) of
            Inl e \<Rightarrow> Inl e
          | Inr b \<Rightarrow>
             (case betavariate a b (d i) of
                Inl e \<Rightarrow> Inl e
              | Inr x \<Rightarrow>
                 (case sampled_means s d is of
                    Inl e \<Rightarrow> Inl e
                  | Inr xs \<Rightarrow> Inr (x # xs)))))"

definition ThompsonSampling_pull ::
  "thompson_sampling \<Rightarrow> ts_draws \<Rightarrow> (error + int) \<times> thompson_sampling" where
  "ThompsonSampling_pull s d =
     (case sampled_means s d [0 ..< length (true_means s)] of
        Inl e \<Rightarrow> (Inl e, s)
      | Inr xs \<Rightarrow>
         (case max_list xs of
            Inl e \<Rightarrow> (Inl e, s)
          | Inr m \<Rightarrow> (list_index xs m, s)))"

definition ThompsonSampling_update ::
  "thompson_sampling \<Rightarrow> int \<Rightarrow> rat \<Rightarrow> (error + unit) \<times> thompson_sampling" where
  "ThompsonSampling_update s arm reward =
     (if reward = 1
      then (case getitem (alpha s) arm of
              Inl e \<Rightarrow> (Inl e, s)
            | Inr a \<Rightarrow>
               (case setitem (alpha s) arm (a + 1) of
                  Inl e \<Rightarrow> (Inl e, s)
                | Inr as \<Rightarrow> (Inr (), s\<lparr>alpha := as\<rparr>)))
      else (case getitem (beta s) arm of
              Inl e \<Rightarrow> (Inl e, s)
            | Inr b \<Rightarrow>
               (case setitem (beta s) arm (b + 1) of
                  Inl e \<Rightarrow> (Inl e, s)
                | Inr bs \<Rightarrow> (Inr (), s\<lparr>beta := bs\<rparr>))))"

definition ThompsonSampling_trial ::
  "thompson_sampling \<Rightarrow> ts_draws \<Rightarrow> (error + rat) \<times> thompson_sampling" where
  "ThompsonSampling_trial s d =
     (case ThompsonSampling_pull s d of
        (Inl e, s1) \<Rightarrow> (Inl e, s1)
      | (Inr arm, s1) \<Rightarrow>
         (case getitem (true_means s1) arm of
            Inl e \<Rightarrow> (Inl e, s1)
          | Inr reward \<Rightarrow>
             (case ThompsonSampling_update s1 arm reward of
                (Inl e, s2) \<Rightarrow> (Inl e, s2)
              | (Inr u, s2) \<Rightarrow> (Inr reward, s2))))"

primrec ThompsonSampling_trials ::
  "thompson_sampling \<Rightarrow> (nat \<Rightarrow> ts_draws) \<Rightarrow> nat \<Rightarrow> (error + rat list) \<times> thompson_sampling" where
  "ThompsonSampling_trials s tape 0 = (Inr [], s)"
| "ThompsonSampling_trials s tape (Suc n) =
     (case ThompsonSampling_trials s tape n of
        (Inl e, s1) \<Rightarrow> (Inl e, s1)
      | (Inr rewards, s1) \<Rightarrow>
         (case ThompsonSampling_trial s1 (tape n) of
            (Inl e, s2) \<Rightarrow> (Inl e, s2)
          | (Inr reward, s2) \<Rightarrow> (Inr (rewards @ [reward]), s2)))"

definition ThompsonSampling_experiment ::
  "thompson_sampling \<Rightarrow> (nat \<Rightarrow> ts_draws) \<Rightarrow> int \<Rightarrow> (error + rat list) \<times> thompson_sampling" where
  "ThompsonSampling_experiment s tape num_trials = ThompsonSampling_trials s tape (nat num_trials)"

definition ThompsonSampling_report ::
  "thompson_sampling \<Rightarrow> (error + rat \<times> rat) \<times> thompson_sampling" where
  "ThompsonSampling_report s =
     (if sum_list (alpha s) + sum_list (beta s) = 0 then (Inl ZeroDivisionError, s)
      else (let avg_reward =
                  of_int (sum_list (alpha s)) / of_int (sum_list (alpha s) + sum_list (beta s))
            in case max_list (true_means s) of
                 Inl e \<Rightarrow> (Inl e, s)
               | Inr m \<Rightarrow> (Inr (avg_reward, m - avg_reward), s)))"

section \<open>Module level and class Visualization\<close>

definition module_true_means :: "rat list" where
  "module_true_means = [1, 2, 3, 4]"

definition module_num_trials :: int where
  "module_num_trials = 20000"

text \<open>
  \<open>report_cumulative_reward_and_regret\<close> reads the module-level \<open>true_means\<close>, here
  the first argument, and prints four numbers, here returned in printing order:
  the two cumulative rewards, then the two cumulative regrets.
\<close>

definition report_cumulative_reward_and_regret ::
  "rat list \<Rightarrow> rat list \<Rightarrow> rat list \<Rightarrow> error + rat \<times> rat \<times> rat \<times> rat" where
  "report_cumulative_reward_and_regret tm epsilon_greedy_rewards thompson_rewards =
     (let cumulative_epsilon_greedy_reward = sum_list epsilon_greedy_rewards;
          cumulative_thompson_reward = sum_list thompson_rewards
      in case max_list tm of
           Inl e \<Rightarrow> Inl e
         | Inr m \<Rightarrow>
            Inr (cumulative_epsilon_greedy_reward,
                 cumulative_thompson_reward,
                 m * of_nat (length epsilon_greedy_rewards) - cumulative_epsilon_greedy_reward,
                 m * of_nat (length thompson_rewards) - cumulative_thompson_reward))"

section \<open>Callers and well-formed objects\<close>

text \<open>
  A caller making one \<open>update\<close> call after another on the same object; the first
  exception ends the sequence. A call is the pair of its arguments, arm and reward.
\<close>

fun EpsilonGreedy_updates ::
  "epsilon_greedy \<Rightarrow> (int \<times> rat) list \<Rightarrow> (error + unit) \<times> epsilon_greedy" where
  "EpsilonGreedy_updates s [] = (Inr (), s)"
| "EpsilonGreedy_updates s (c # calls) =
     (case EpsilonGreedy_update s (fst c) (snd c) of
        (Inl e, s1) \<Rightarrow> (Inl e, s1)
      | (Inr u, s1) \<Rightarrow> EpsilonGreedy_updates s1 calls)"

fun ThompsonSampling_updates ::
  "thompson_sampling \<Rightarrow> (int \<times> rat) list \<Rightarrow> (error + unit) \<times> thompson_sampling" where
  "ThompsonSampling_updates s [] = (Inr (), s)"
| "ThompsonSampling_updates s (c # calls) =
     (case ThompsonSampling_update s (fst c) (snd c) of
        (Inl e, s1) \<Rightarrow> (Inl e, s1)
      | (Inr u, s1) \<Rightarrow> ThompsonSampling_updates s1 calls)"

text \<open>The rewards that a sequence of calls passes for arm \<open>a\<close>, in call order.\<close>

definition rewards_to :: "int \<Rightarrow> (int \<times> rat) list \<Rightarrow> rat list" where
  "rewards_to a calls = map snd (filter (\<lambda>c. fst c = a) calls)"

text \<open>
  What the constructors establish and every method keeps: one entry per arm in each
  sequence, counters that are not negative, pseudo-counts that are positive.
\<close>

definition EpsilonGreedy_wf :: "epsilon_greedy \<Rightarrow> bool" where
  "EpsilonGreedy_wf s \<longleftrightarrow>
     length (action_counts s) = length (true_means s) \<and>
     length (action_values s) = length (true_means s) \<and>
     list_all (\<lambda>c. 0 \<le> c) (action_counts s)"

definition ThompsonSampling_wf :: "thompson_sampling \<Rightarrow> bool" where
  "ThompsonSampling_wf s \<longleftrightarrow>
     length (alpha s) = length (true_means s) \<and>
     length (beta s) = length (true_means s) \<and>
     list_all (\<lambda>a. 0 < a) (alpha s) \<and>
     list_all (\<lambda>b. 0 < b) (beta s)"

text \<open>
  Any method call on a policy object, and the object it leaves behind whether the call
  returned or raised.
\<close>

datatype eg_call =
  EG_pull eg_draws
| EG_update int rat
| EG_experiment "nat \<Rightarrow> eg_draws" int
| EG_report

fun EpsilonGreedy_call :: "epsilon_greedy \<Rightarrow> eg_call \<Rightarrow> epsilon_greedy" where
  "EpsilonGreedy_call s (EG_pull d) = snd (EpsilonGreedy_pull s d)"
| "EpsilonGreedy_call s (EG_update arm reward) = snd (EpsilonGreedy_update s arm reward)"
| "EpsilonGreedy_call s (EG_experiment tape num_trials) =
     snd (EpsilonGreedy_experiment s tape num_trials)"
| "EpsilonGreedy_call s EG_report = snd (EpsilonGreedy_report s)"

datatype ts_call =
  TS_pull ts_draws
| TS_update int rat
| TS_experiment "nat \<Rightarrow> ts_draws" int
| TS_report

fun ThompsonSampling_call :: "thompson_sampling \<Rightarrow> ts_call \<Rightarrow> thompson_sampling" where
  "ThompsonSampling_call s (TS_pull d) = snd (ThompsonSampling_pull s d)"
| "ThompsonSampling_call s (TS_update arm reward) = snd (ThompsonSampling_update s arm reward)"
| "ThompsonSampling_call s (TS_experiment tape num_trials) =
     snd (ThompsonSampling_experiment s tape num_trials)"
| "ThompsonSampling_call s TS_report = snd (ThompsonSampling_report s)"

text \<open>The object as pass number \<open>k\<close> of the loop of \<open>experiment\<close> finds it.\<close>

definition EpsilonGreedy_before :: "epsilon_greedy \<Rightarrow> (nat \<Rightarrow> eg_draws) \<Rightarrow> nat \<Rightarrow> epsilon_greedy" where
  "EpsilonGreedy_before s tape k = snd (EpsilonGreedy_trials s tape k)"

definition ThompsonSampling_before ::
  "thompson_sampling \<Rightarrow> (nat \<Rightarrow> ts_draws) \<Rightarrow> nat \<Rightarrow> thompson_sampling" where
  "ThompsonSampling_before s tape k = snd (ThompsonSampling_trials s tape k)"

text \<open>
  The formula for Thompson sampling's \<open>avg_reward\<close> read as the specification prints
  it, \<open>sum(alpha) / sum(alpha) + sum(beta)\<close>, with the usual precedence of division
  over addition. It is compared with \<open>ThompsonSampling_report\<close> below.
\<close>

definition avg_reward_as_printed :: "thompson_sampling \<Rightarrow> rat" where
  "avg_reward_as_printed s =
     of_int (sum_list (alpha s)) / of_int (sum_list (alpha s)) + of_int (sum_list (beta s))"

section \<open>Facts about the built-ins\<close>

lemma list_pos_inside:
  "0 \<le> i \<Longrightarrow> i < int (length xs) \<Longrightarrow> list_pos xs i = Inr (nat i)"
  by (simp add: list_pos_def)

lemma list_pos_outside:
  "i < - int (length xs) \<or> int (length xs) \<le> i \<Longrightarrow> list_pos xs i = Inl IndexError"
  by (auto simp: list_pos_def)

lemma list_pos_negative:
  "i < 0 \<Longrightarrow> - int (length xs) \<le> i \<Longrightarrow> list_pos xs i = Inr (nat (i + int (length xs)))"
  by (simp add: list_pos_def)

lemma list_pos_bound: "list_pos xs i = Inr p \<Longrightarrow> p < length xs"
  by (auto simp: list_pos_def split: if_splits)

lemma list_pos_same_length: "length xs = length ys \<Longrightarrow> list_pos xs i = list_pos ys i"
  by (simp add: list_pos_def)

lemma max_list_Max: "xs \<noteq> [] \<Longrightarrow> max_list xs = Inr (Max (set xs))"
  by (cases xs) (simp_all add: Max.set_eq_fold [symmetric])

lemma list_index_first:
  "y \<in> set xs \<Longrightarrow>
   \<exists>i < length xs. list_index xs y = Inr (int i) \<and> xs ! i = y \<and> (\<forall>j < i. xs ! j \<noteq> y)"
proof (induction xs)
  case Nil
  then show ?case by simp
next
  case (Cons x xs)
  show ?case
  proof (cases "x = y")
    case True
    then show ?thesis by (intro exI [of _ 0]) simp
  next
    case False
    with Cons.prems have "y \<in> set xs" by simp
    from Cons.IH [OF this] obtain i where i: "i < length xs" "list_index xs y = Inr (int i)"
      "xs ! i = y" "\<forall>j < i. xs ! j \<noteq> y" by blast
    have "\<forall>j < Suc i. (x # xs) ! j \<noteq> y"
      using False i(4) by (auto simp: less_Suc_eq_0_disj)
    with False i show ?thesis by (intro exI [of _ "Suc i"]) simp
  qed
qed

text \<open>
  The library functions stay inside their documented ranges and reach all of them.
\<close>

lemma random_random_range: "0 \<le> random_random raw \<and> random_random raw < 1"
  by (simp add: random_random_def frac_lt_1)

lemma random_random_onto: "0 \<le> u \<Longrightarrow> u < 1 \<Longrightarrow> random_random u = u"
  by (simp add: random_random_def frac_eq)

lemma randint_range: "randint a b raw = Inr j \<Longrightarrow> a \<le> j \<and> j \<le> b"
proof -
  assume h: "randint a b raw = Inr j"
  then have ab: "a \<le> b" and j: "j = a + int raw mod (b - a + 1)"
    by (auto simp: randint_def split: if_splits)
  have "0 \<le> int raw mod (b - a + 1)"
    using ab by simp
  moreover have "int raw mod (b - a + 1) < b - a + 1"
    by (rule pos_mod_bound) (use ab in linarith)
  ultimately show ?thesis using j by linarith
qed

lemma randint_onto: "a \<le> j \<Longrightarrow> j \<le> b \<Longrightarrow> randint a b (nat (j - a)) = Inr j"
  by (simp add: randint_def)

lemma randint_empty: "b < a \<Longrightarrow> randint a b raw = Inl ValueError"
  by (simp add: randint_def)

section \<open>pull has no side effects\<close>

text \<open>
  Claim C8. Whatever the random draws are and whether it returns an arm or raises,
  \<open>pull\<close> of either policy leaves the object exactly as it found it: \<open>true_means\<close>,
  \<open>estimated_means\<close>, \<open>action_counts\<close>, \<open>action_values\<close>, \<open>epsilon\<close>, \<open>alpha\<close> and
  \<open>beta\<close> are all unchanged. This holds for every object, reachable or not.
\<close>

theorem pull_leaves_object_unchanged:
  "snd (EpsilonGreedy_pull s d) = s \<and> snd (ThompsonSampling_pull t x) = t"
  by (simp add: EpsilonGreedy_pull_def ThompsonSampling_pull_def split: sum.splits)

section \<open>EpsilonGreedy.update keeps the running mean\<close>

lemma list_pos_update [simp]: "list_pos (xs[p := v]) i = list_pos xs i"
  by (simp add: list_pos_def)

lemma EpsilonGreedy_update_ok:
  assumes len: "length (action_values s) = length (action_counts s)"
    and pos: "list_pos (action_counts s) arm = Inr p"
    and nz: "action_counts s ! p + 1 \<noteq> 0"
  shows "EpsilonGreedy_update s arm reward =
           (Inr (),
            s\<lparr>action_counts := (action_counts s)[p := action_counts s ! p + 1],
              action_values := (action_values s)
                [p := action_values s ! p + (reward - action_values s ! p) / of_int (action_counts s ! p + 1)]\<rparr>)"
proof -
  have pv: "list_pos (action_values s) arm = Inr p"
    using pos list_pos_same_length [OF len] by simp
  have p: "p < length (action_counts s)"
    using pos by (rule list_pos_bound)
  show ?thesis
    using nz p by (simp add: EpsilonGreedy_update_def getitem_def setitem_def pos pv)
qed

lemma EpsilonGreedy_update_IndexError:
  assumes "list_pos (action_counts s) arm = Inl e"
  shows "EpsilonGreedy_update s arm reward = (Inl e, s)"
  using assms by (simp add: EpsilonGreedy_update_def getitem_def)

lemma ThompsonSampling_update_ok:
  assumes len: "length (beta s) = length (alpha s)"
    and pos: "list_pos (alpha s) arm = Inr p"
  shows "ThompsonSampling_update s arm reward =
           (Inr (),
            if reward = 1 then s\<lparr>alpha := (alpha s)[p := alpha s ! p + 1]\<rparr>
            else s\<lparr>beta := (beta s)[p := beta s ! p + 1]\<rparr>)"
proof -
  have pv: "list_pos (beta s) arm = Inr p"
    using pos list_pos_same_length [OF len] by simp
  show ?thesis
    by (simp add: ThompsonSampling_update_def getitem_def setitem_def pos pv)
qed

lemma ThompsonSampling_update_IndexError:
  assumes len: "length (beta s) = length (alpha s)"
    and pos: "list_pos (alpha s) arm = Inl e"
  shows "ThompsonSampling_update s arm reward = (Inl e, s)"
proof -
  have pv: "list_pos (beta s) arm = Inl e"
    using pos list_pos_same_length [OF len] by simp
  show ?thesis
    by (simp add: ThompsonSampling_update_def getitem_def pos pv)
qed

lemma rewards_to_Cons:
  "rewards_to a (c # calls) = (if fst c = a then snd c # rewards_to a calls else rewards_to a calls)"
  by (simp add: rewards_to_def)

lemma rewards_to_Nil: "rewards_to a [] = []"
  by (simp add: rewards_to_def)

lemma EpsilonGreedy_init_wf: "EpsilonGreedy_wf (EpsilonGreedy_init tm eps)"
  by (simp add: EpsilonGreedy_wf_def EpsilonGreedy_init_def Let_def list_all_length)

lemma EpsilonGreedy_update_wf:
  assumes wf: "EpsilonGreedy_wf s" and lo: "0 \<le> arm" and hi: "arm < int (length (true_means s))"
  shows "\<exists>s'. EpsilonGreedy_update s arm reward = (Inr (), s') \<and> EpsilonGreedy_wf s' \<and>
           true_means s' = true_means s \<and>
           action_counts s' = (action_counts s)[nat arm := action_counts s ! nat arm + 1] \<and>
           action_values s' = (action_values s)
             [nat arm := action_values s ! nat arm +
                (reward - action_values s ! nat arm) / of_int (action_counts s ! nat arm + 1)]"
proof -
  have len: "length (action_values s) = length (action_counts s)"
    and lc: "length (action_counts s) = length (true_means s)"
    and nn: "\<forall>i < length (action_counts s). 0 \<le> action_counts s ! i"
    using wf by (simp_all add: EpsilonGreedy_wf_def list_all_length)
  have pos: "list_pos (action_counts s) arm = Inr (nat arm)"
    using lo hi lc by (simp add: list_pos_inside)
  have p: "nat arm < length (action_counts s)"
    using lo hi lc by simp
  have c0: "0 \<le> action_counts s ! nat arm"
    using nn p by blast
  then have nz: "action_counts s ! nat arm + 1 \<noteq> 0"
    by simp
  note step = EpsilonGreedy_update_ok [OF len pos nz, of reward]
  have "list_all (\<lambda>c. 0 \<le> c) ((action_counts s)[nat arm := action_counts s ! nat arm + 1])"
    using nn c0 p by (auto simp: list_all_length nth_list_update)
  then show ?thesis
    using step len lc by (simp add: EpsilonGreedy_wf_def)
qed

lemma EpsilonGreedy_updates_totals:
  assumes "EpsilonGreedy_wf s"
    and "\<forall>c \<in> set calls. 0 \<le> fst c \<and> fst c < int (length (true_means s))"
  shows "\<exists>s'. EpsilonGreedy_updates s calls = (Inr (), s') \<and> EpsilonGreedy_wf s' \<and>
           true_means s' = true_means s \<and>
           (\<forall>a < length (true_means s).
              action_counts s' ! a = action_counts s ! a + int (length (rewards_to (int a) calls)) \<and>
              action_values s' ! a * of_int (action_counts s' ! a) =
                action_values s ! a * of_int (action_counts s ! a) + sum_list (rewards_to (int a) calls))"
  using assms
proof (induction calls arbitrary: s)
  case Nil
  then show ?case by (simp add: rewards_to_Nil)
next
  case (Cons c calls)
  have lo: "0 \<le> fst c" and hi: "fst c < int (length (true_means s))"
    using Cons.prems(2) by simp_all
  from EpsilonGreedy_update_wf [OF Cons.prems(1) lo hi, of "snd c"]
  obtain s1 where s1: "EpsilonGreedy_update s (fst c) (snd c) = (Inr (), s1)"
    and wf1: "EpsilonGreedy_wf s1" and tm1: "true_means s1 = true_means s"
    and ac1: "action_counts s1 = (action_counts s)[nat (fst c) := action_counts s ! nat (fst c) + 1]"
    and av1: "action_values s1 = (action_values s)
             [nat (fst c) := action_values s ! nat (fst c) +
                (snd c - action_values s ! nat (fst c)) / of_int (action_counts s ! nat (fst c) + 1)]"
    by blast
  have rest: "\<forall>c \<in> set calls. 0 \<le> fst c \<and> fst c < int (length (true_means s1))"
    using Cons.prems(2) tm1 by simp
  from Cons.IH [OF wf1 rest]
  obtain s' where run: "EpsilonGreedy_updates s1 calls = (Inr (), s')"
    and wf': "EpsilonGreedy_wf s'" and tm': "true_means s' = true_means s1"
    and tot: "\<forall>a < length (true_means s1).
              action_counts s' ! a = action_counts s1 ! a + int (length (rewards_to (int a) calls)) \<and>
              action_values s' ! a * of_int (action_counts s' ! a) =
                action_values s1 ! a * of_int (action_counts s1 ! a) + sum_list (rewards_to (int a) calls)"
    by blast
  have lens: "length (action_counts s) = length (true_means s)"
    "length (action_values s) = length (true_means s)"
    and nn: "\<forall>i < length (action_counts s). 0 \<le> action_counts s ! i"
    using Cons.prems(1) by (simp_all add: EpsilonGreedy_wf_def list_all_length)
  have "action_counts s' ! a = action_counts s ! a + int (length (rewards_to (int a) (c # calls))) \<and>
        action_values s' ! a * of_int (action_counts s' ! a) =
          action_values s ! a * of_int (action_counts s ! a) + sum_list (rewards_to (int a) (c # calls))"
    if a: "a < length (true_means s)" for a
  proof -
    have a1: "a < length (true_means s1)" using a tm1 by simp
    note t = tot [rule_format, OF a1]
    note t1 = conjunct1 [OF t] and t2 = conjunct2 [OF t]
    show ?thesis
    proof (cases "fst c = int a")
    case True
    then have na: "nat (fst c) = a" by simp
    have c0: "0 \<le> action_counts s ! a" using nn a lens by simp
    have c1: "action_counts s1 ! a = action_counts s ! a + 1"
      using ac1 na a lens by simp
    have v1: "action_values s1 ! a * of_int (action_counts s1 ! a) =
               action_values s ! a * of_int (action_counts s ! a) + snd c"
    proof -
      have nz: "(of_int (action_counts s ! a + 1) :: rat) \<noteq> 0"
        using c0 by (metis add.commute add_nonneg_eq_0_iff of_int_eq_0_iff zero_neq_one zero_le_one)
      have "action_values s1 ! a = action_values s ! a +
                (snd c - action_values s ! a) / of_int (action_counts s ! a + 1)"
        using av1 na a lens by simp
      then show ?thesis
        using nz by (simp add: c1 field_simps)
    qed
    have "action_values s' ! a * of_int (action_counts s' ! a) =
            action_values s ! a * of_int (action_counts s ! a) + snd c + sum_list (rewards_to (int a) calls)"
      by (simp only: t2 v1)
    then show ?thesis
      using t1 c1 True by (simp add: rewards_to_Cons)
  next
    case False
    then have na: "nat (fst c) \<noteq> a" using lo by linarith
    have "action_counts s1 ! a = action_counts s ! a" "action_values s1 ! a = action_values s ! a"
      using ac1 av1 na by simp_all
    then show ?thesis
      using t1 t2 False by (simp add: rewards_to_Cons)
    qed
  qed
  then have every: "\<forall>a < length (true_means s).
        action_counts s' ! a = action_counts s ! a + int (length (rewards_to (int a) (c # calls))) \<and>
        action_values s' ! a * of_int (action_counts s' ! a) =
          action_values s ! a * of_int (action_counts s ! a) + sum_list (rewards_to (int a) (c # calls))"
    by blast
  have "EpsilonGreedy_updates s (c # calls) = (Inr (), s')"
    using s1 run by simp
  moreover have "true_means s' = true_means s"
    using tm' tm1 by simp
  ultimately show ?case
    using wf' every by blast
qed

text \<open>
  Claim C1. Start from a freshly constructed EpsilonGreedy object and make any sequence
  of \<open>update\<close> calls with arms in \<open>[0, K)\<close>, in any interleaving. No call raises, and
  for every arm \<open>a\<close>: \<open>action_counts[a]\<close> is the number of calls made for \<open>a\<close>, and if
  there was at least one, \<open>action_values[a]\<close> is exactly the arithmetic mean of the
  rewards passed for \<open>a\<close>. Moreover a single call on any well-formed object with an arm
  in \<open>[0, K)\<close> increments \<open>action_counts[arm]\<close> and performs
  \<open>value += (reward - value) / count\<close> on \<open>action_values[arm]\<close>, where \<open>count\<close> is the
  incremented counter, and touches no other entry.
\<close>

theorem incremental_mean:
  assumes calls: "\<forall>c \<in> set calls. 0 \<le> fst c \<and> fst c < int (length tm)"
    and a: "a < length tm"
    and wf: "EpsilonGreedy_wf s"
    and arm: "0 \<le> arm \<and> arm < int (length (true_means s))"
  shows "(\<exists>s'. EpsilonGreedy_updates (EpsilonGreedy_init tm eps) calls = (Inr (), s') \<and>
            action_counts s' ! a = int (length (rewards_to (int a) calls)) \<and>
            (rewards_to (int a) calls \<noteq> [] \<longrightarrow>
               action_values s' ! a =
                 sum_list (rewards_to (int a) calls) / of_nat (length (rewards_to (int a) calls)))) \<and>
         (\<exists>s'. EpsilonGreedy_update s arm reward = (Inr (), s') \<and>
            action_counts s' = (action_counts s)[nat arm := action_counts s ! nat arm + 1] \<and>
            action_values s' = (action_values s)
              [nat arm := action_values s ! nat arm +
                 (reward - action_values s ! nat arm) / of_int (action_counts s' ! nat arm)])"
proof
  let ?s0 = "EpsilonGreedy_init tm eps"
  let ?rs = "rewards_to (int a) calls"
  have tm0: "true_means ?s0 = tm"
    and c0: "action_counts ?s0 ! a = 0"
    using a by (simp_all add: EpsilonGreedy_init_def Let_def)
  have calls0: "\<forall>c \<in> set calls. 0 \<le> fst c \<and> fst c < int (length (true_means ?s0))"
    using calls tm0 by simp
  from EpsilonGreedy_updates_totals [OF EpsilonGreedy_init_wf calls0]
  obtain s' where run: "EpsilonGreedy_updates ?s0 calls = (Inr (), s')"
    and tot: "\<forall>a < length (true_means ?s0).
              action_counts s' ! a = action_counts ?s0 ! a + int (length (rewards_to (int a) calls)) \<and>
              action_values s' ! a * of_int (action_counts s' ! a) =
                action_values ?s0 ! a * of_int (action_counts ?s0 ! a) + sum_list (rewards_to (int a) calls)"
    by blast
  have a0: "a < length (true_means ?s0)" using a tm0 by simp
  note ta = tot [rule_format, OF a0]
  have cnt: "action_counts s' ! a = int (length ?rs)"
    using conjunct1 [OF ta] c0 by simp
  have prod: "action_values s' ! a * of_nat (length ?rs) = sum_list ?rs"
    using conjunct2 [OF ta] c0 cnt by simp
  have "action_values s' ! a = sum_list ?rs / of_nat (length ?rs)" if "?rs \<noteq> []"
  proof -
    have "(of_nat (length ?rs) :: rat) \<noteq> 0" using that by simp
    then show ?thesis using prod by (simp add: field_simps)
  qed
  then show "\<exists>s'. EpsilonGreedy_updates ?s0 calls = (Inr (), s') \<and>
            action_counts s' ! a = int (length ?rs) \<and>
            (?rs \<noteq> [] \<longrightarrow> action_values s' ! a = sum_list ?rs / of_nat (length ?rs))"
    using run cnt by blast
next
  from arm have lo: "0 \<le> arm" and hi: "arm < int (length (true_means s))" by simp_all
  from EpsilonGreedy_update_wf [OF wf lo hi, of reward]
  obtain s' where s': "EpsilonGreedy_update s arm reward = (Inr (), s')"
    and ac: "action_counts s' = (action_counts s)[nat arm := action_counts s ! nat arm + 1]"
    and av: "action_values s' = (action_values s)
             [nat arm := action_values s ! nat arm +
                (reward - action_values s ! nat arm) / of_int (action_counts s ! nat arm + 1)]"
    by blast
  have "nat arm < length (action_counts s)"
    using wf lo hi by (simp add: EpsilonGreedy_wf_def)
  then have "action_counts s' ! nat arm = action_counts s ! nat arm + 1"
    using ac by simp
  then show "\<exists>s'. EpsilonGreedy_update s arm reward = (Inr (), s') \<and>
            action_counts s' = (action_counts s)[nat arm := action_counts s ! nat arm + 1] \<and>
            action_values s' = (action_values s)
              [nat arm := action_values s ! nat arm +
                 (reward - action_values s ! nat arm) / of_int (action_counts s' ! nat arm)]"
    using s' ac av by simp
qed

theorem incremental_mean_witness:
  "(\<exists>s'. EpsilonGreedy_updates (EpsilonGreedy_init [1, 2] (1/5)) [(0, 2), (1, 5), (0, 4)] = (Inr (), s') \<and>
         action_counts s' ! 0 = 2 \<and> action_values s' ! 0 = 3) \<and>
   (\<exists>s'. EpsilonGreedy_update (EpsilonGreedy_init [1, 2] (1/5)) 1 5 = (Inr (), s') \<and>
         action_counts s' = [0, 1] \<and> action_values s' = [0, 5])"
proof -
  let ?calls = "[(0, 2), (1, 5), (0, 4)] :: (int \<times> rat) list"
  let ?s = "EpsilonGreedy_init [1, 2] (1/5)"
  have h1: "\<forall>c \<in> set ?calls. 0 \<le> fst c \<and> fst c < int (length [1, 2 :: rat])"
    by simp
  have h2: "0 < length [1, 2 :: rat]"
    by simp
  have h3: "EpsilonGreedy_wf ?s"
    by (simp add: EpsilonGreedy_wf_def EpsilonGreedy_init_def Bandit_init_def Let_def)
  have h4: "0 \<le> (1::int) \<and> 1 < int (length (true_means ?s))"
    by (simp add: EpsilonGreedy_init_def Let_def)
  have rs: "rewards_to (int 0) ?calls = [2, 4]"
    by (simp add: rewards_to_def)
  from incremental_mean [OF h1 h2 h3 h4, of "1/5" 5]
  obtain s1 s2 where
    "EpsilonGreedy_updates ?s ?calls = (Inr (), s1)"
    "action_counts s1 ! 0 = int (length (rewards_to (int 0) ?calls))"
    "rewards_to (int 0) ?calls \<noteq> [] \<longrightarrow> action_values s1 ! 0 =
       sum_list (rewards_to (int 0) ?calls) / of_nat (length (rewards_to (int 0) ?calls))"
    "EpsilonGreedy_update ?s 1 5 = (Inr (), s2)"
    "action_counts s2 = (action_counts ?s)[nat 1 := action_counts ?s ! nat 1 + 1]"
    "action_values s2 = (action_values ?s)
       [nat 1 := action_values ?s ! nat 1 + (5 - action_values ?s ! nat 1) / of_int (action_counts s2 ! nat 1)]"
    by blast
  then show ?thesis
    unfolding rs by (simp add: EpsilonGreedy_init_def Bandit_init_def Let_def)
qed

section \<open>ThompsonSampling.update counts successes and failures\<close>

lemma ThompsonSampling_init_wf: "ThompsonSampling_wf (ThompsonSampling_init tm)"
  by (simp add: ThompsonSampling_wf_def ThompsonSampling_init_def Bandit_init_def Let_def
      list_all_length)

lemma ThompsonSampling_update_wf:
  assumes wf: "ThompsonSampling_wf s" and lo: "0 \<le> arm" and hi: "arm < int (length (true_means s))"
  shows "\<exists>s'. ThompsonSampling_update s arm reward = (Inr (), s') \<and> ThompsonSampling_wf s' \<and>
           true_means s' = true_means s \<and>
           alpha s' = (if reward = 1 then (alpha s)[nat arm := alpha s ! nat arm + 1] else alpha s) \<and>
           beta s' = (if reward = 1 then beta s else (beta s)[nat arm := beta s ! nat arm + 1])"
proof -
  have len: "length (beta s) = length (alpha s)"
    and la: "length (alpha s) = length (true_means s)"
    and pa: "\<forall>i < length (alpha s). 0 < alpha s ! i"
    and pb: "\<forall>i < length (beta s). 0 < beta s ! i"
    using wf by (simp_all add: ThompsonSampling_wf_def list_all_length)
  have pos: "list_pos (alpha s) arm = Inr (nat arm)"
    using lo hi la by (simp add: list_pos_inside)
  have p: "nat arm < length (alpha s)" "nat arm < length (beta s)"
    using lo hi la len by simp_all
  note step = ThompsonSampling_update_ok [OF len pos, of reward]
  have "list_all (\<lambda>a. 0 < a) ((alpha s)[nat arm := alpha s ! nat arm + 1])"
    using pa p by (auto simp: list_all_length nth_list_update)
  moreover have "list_all (\<lambda>a. 0 < a) ((beta s)[nat arm := beta s ! nat arm + 1])"
    using pb p by (auto simp: list_all_length nth_list_update)
  ultimately show ?thesis
    using step wf by (simp add: ThompsonSampling_wf_def)
qed

lemma ThompsonSampling_updates_totals:
  assumes "ThompsonSampling_wf s"
    and "\<forall>c \<in> set calls. 0 \<le> fst c \<and> fst c < int (length (true_means s))"
  shows "\<exists>s'. ThompsonSampling_updates s calls = (Inr (), s') \<and> ThompsonSampling_wf s' \<and>
           true_means s' = true_means s \<and>
           (\<forall>a < length (true_means s).
              alpha s' ! a = alpha s ! a + int (length (filter (\<lambda>r. r = 1) (rewards_to (int a) calls))) \<and>
              beta s' ! a = beta s ! a + int (length (filter (\<lambda>r. r \<noteq> 1) (rewards_to (int a) calls))))"
  using assms
proof (induction calls arbitrary: s)
  case Nil
  then show ?case by (simp add: rewards_to_Nil)
next
  case (Cons c calls)
  have lo: "0 \<le> fst c" and hi: "fst c < int (length (true_means s))"
    using Cons.prems(2) by simp_all
  from ThompsonSampling_update_wf [OF Cons.prems(1) lo hi, of "snd c"]
  obtain s1 where s1: "ThompsonSampling_update s (fst c) (snd c) = (Inr (), s1)"
    and wf1: "ThompsonSampling_wf s1" and tm1: "true_means s1 = true_means s"
    and al1: "alpha s1 = (if snd c = 1 then (alpha s)[nat (fst c) := alpha s ! nat (fst c) + 1] else alpha s)"
    and be1: "beta s1 = (if snd c = 1 then beta s else (beta s)[nat (fst c) := beta s ! nat (fst c) + 1])"
    by blast
  have rest: "\<forall>c \<in> set calls. 0 \<le> fst c \<and> fst c < int (length (true_means s1))"
    using Cons.prems(2) tm1 by simp
  from Cons.IH [OF wf1 rest]
  obtain s' where run: "ThompsonSampling_updates s1 calls = (Inr (), s')"
    and wf': "ThompsonSampling_wf s'" and tm': "true_means s' = true_means s1"
    and tot: "\<forall>a < length (true_means s1).
              alpha s' ! a = alpha s1 ! a + int (length (filter (\<lambda>r. r = 1) (rewards_to (int a) calls))) \<and>
              beta s' ! a = beta s1 ! a + int (length (filter (\<lambda>r. r \<noteq> 1) (rewards_to (int a) calls)))"
    by blast
  have lens: "length (alpha s) = length (true_means s)" "length (beta s) = length (true_means s)"
    using Cons.prems(1) by (simp_all add: ThompsonSampling_wf_def)
  have "alpha s' ! a = alpha s ! a + int (length (filter (\<lambda>r. r = 1) (rewards_to (int a) (c # calls)))) \<and>
        beta s' ! a = beta s ! a + int (length (filter (\<lambda>r. r \<noteq> 1) (rewards_to (int a) (c # calls))))"
    if a: "a < length (true_means s)" for a
  proof -
    have a1: "a < length (true_means s1)" using a tm1 by simp
    note t = tot [rule_format, OF a1]
    note t1 = conjunct1 [OF t] and t2 = conjunct2 [OF t]
    show ?thesis
    proof (cases "fst c = int a")
      case True
      then have na: "nat (fst c) = a" by simp
      have "alpha s1 ! a = (if snd c = 1 then alpha s ! a + 1 else alpha s ! a)"
        "beta s1 ! a = (if snd c = 1 then beta s ! a else beta s ! a + 1)"
        using al1 be1 na a lens by simp_all
      then show ?thesis
        using t1 t2 True by (simp add: rewards_to_Cons)
    next
      case False
      then have na: "nat (fst c) \<noteq> a" using lo by linarith
      have "alpha s1 ! a = alpha s ! a" "beta s1 ! a = beta s ! a"
        using al1 be1 na by simp_all
      then show ?thesis
        using t1 t2 False by (simp add: rewards_to_Cons)
    qed
  qed
  then have every: "\<forall>a < length (true_means s).
        alpha s' ! a = alpha s ! a + int (length (filter (\<lambda>r. r = 1) (rewards_to (int a) (c # calls)))) \<and>
        beta s' ! a = beta s ! a + int (length (filter (\<lambda>r. r \<noteq> 1) (rewards_to (int a) (c # calls))))"
    by blast
  have "ThompsonSampling_updates s (c # calls) = (Inr (), s')"
    using s1 run by simp
  moreover have "true_means s' = true_means s"
    using tm' tm1 by simp
  ultimately show ?case
    using wf' every by blast
qed

text \<open>
  Claim C2. Start from a freshly constructed ThompsonSampling object (\<open>alpha\<close> and
  \<open>beta\<close> all 1) and make any sequence of \<open>update\<close> calls with arms in \<open>[0, K)\<close>. No
  call raises, and for every arm \<open>a\<close>: \<open>alpha[a] - 1\<close> is the number of calls for \<open>a\<close>
  whose reward equals 1, \<open>beta[a] - 1\<close> is the number of calls for \<open>a\<close> whose reward
  differs from 1, and \<open>alpha[a] + beta[a] - 2\<close> is the number of calls for \<open>a\<close>.
\<close>

theorem conjugate_update_counts:
  assumes calls: "\<forall>c \<in> set calls. 0 \<le> fst c \<and> fst c < int (length tm)"
    and a: "a < length tm"
  shows "\<exists>s'. ThompsonSampling_updates (ThompsonSampling_init tm) calls = (Inr (), s') \<and>
           alpha s' ! a - 1 = int (length (filter (\<lambda>r. r = 1) (rewards_to (int a) calls))) \<and>
           beta s' ! a - 1 = int (length (filter (\<lambda>r. r \<noteq> 1) (rewards_to (int a) calls))) \<and>
           alpha s' ! a + beta s' ! a - 2 = int (length (rewards_to (int a) calls))"
proof -
  let ?s0 = "ThompsonSampling_init tm"
  let ?rs = "rewards_to (int a) calls"
  have tm0: "true_means ?s0 = tm" and a0: "alpha ?s0 ! a = 1" and b0: "beta ?s0 ! a = 1"
    using a by (simp_all add: ThompsonSampling_init_def Bandit_init_def Let_def)
  have calls0: "\<forall>c \<in> set calls. 0 \<le> fst c \<and> fst c < int (length (true_means ?s0))"
    using calls tm0 by simp
  from ThompsonSampling_updates_totals [OF ThompsonSampling_init_wf calls0]
  obtain s' where run: "ThompsonSampling_updates ?s0 calls = (Inr (), s')"
    and tot: "\<forall>a < length (true_means ?s0).
              alpha s' ! a = alpha ?s0 ! a + int (length (filter (\<lambda>r. r = 1) (rewards_to (int a) calls))) \<and>
              beta s' ! a = beta ?s0 ! a + int (length (filter (\<lambda>r. r \<noteq> 1) (rewards_to (int a) calls)))"
    by blast
  have a1: "a < length (true_means ?s0)" using a tm0 by simp
  note t = tot [rule_format, OF a1]
  have al: "alpha s' ! a - 1 = int (length (filter (\<lambda>r. r = 1) ?rs))"
    using conjunct1 [OF t] a0 by simp
  have be: "beta s' ! a - 1 = int (length (filter (\<lambda>r. r \<noteq> 1) ?rs))"
    using conjunct2 [OF t] b0 by simp
  have "length (filter (\<lambda>r. r = 1) ?rs) + length (filter (\<lambda>r. r \<noteq> 1) ?rs) = length ?rs"
    by (rule sum_length_filter_compl)
  then have "alpha s' ! a + beta s' ! a - 2 = int (length ?rs)"
    using al be by linarith
  then show ?thesis
    using run al be by blast
qed

theorem conjugate_update_counts_witness:
  "\<exists>s'. ThompsonSampling_updates (ThompsonSampling_init [0, 1]) [(1, 1), (0, 0), (1, 1), (1, 1/2)] = (Inr (), s') \<and>
        alpha s' ! 1 - 1 = 2 \<and> beta s' ! 1 - 1 = 1 \<and> alpha s' ! 1 + beta s' ! 1 - 2 = 3"
proof -
  let ?calls = "[(1, 1), (0, 0), (1, 1), (1, 1/2)] :: (int \<times> rat) list"
  have h1: "\<forall>c \<in> set ?calls. 0 \<le> fst c \<and> fst c < int (length [0, 1 :: rat])"
    by simp
  have h2: "1 < length [0, 1 :: rat]"
    by simp
  have rs: "rewards_to (int 1) ?calls = [1, 1, 1/2]"
    by (simp add: rewards_to_def)
  from conjugate_update_counts [OF h1 h2]
  show ?thesis
    unfolding rs by simp
qed

section \<open>ThompsonSampling.report\<close>

text \<open>
  Claim C3, as stated, fails. Read with the usual precedence, the printed formula
  \<open>sum(alpha) / sum(alpha) + sum(beta)\<close> is \<open>1 + sum(beta)\<close>. On the fresh object for
  the module's four arms that is 5, while \<open>report\<close> computes \<open>avg_reward = 4 / 8\<close> and
  \<open>avg_regret = 4 - 1/2\<close>.
\<close>

theorem report_formula_counterexample:
  "avg_reward_as_printed (ThompsonSampling_init [1, 2, 3, 4]) = 5 \<and>
   fst (ThompsonSampling_report (ThompsonSampling_init [1, 2, 3, 4])) = Inr (1/2, 7/2) \<and>
   fst (ThompsonSampling_report (ThompsonSampling_init [1, 2, 3, 4])) \<noteq>
     Inr (avg_reward_as_printed (ThompsonSampling_init [1, 2, 3, 4]),
          4 - avg_reward_as_printed (ThompsonSampling_init [1, 2, 3, 4]))"
  by (simp add: avg_reward_as_printed_def ThompsonSampling_report_def ThompsonSampling_init_def
      Bandit_init_def Let_def)

text \<open>
  Claim C3, amended. On every ThompsonSampling object with at least one arm and
  \<open>sum(alpha) + sum(beta)\<close> different from 0 (true of every well-formed object with an
  arm), \<open>report\<close> computes \<open>avg_reward = sum(alpha) / (sum(alpha) + sum(beta))\<close> and
  \<open>avg_regret = max(true_means) - avg_reward\<close>, and leaves the object unchanged.
\<close>

theorem report_formula:
  assumes "true_means s \<noteq> []" and "sum_list (alpha s) + sum_list (beta s) \<noteq> 0"
  shows "ThompsonSampling_report s =
           (Inr (of_int (sum_list (alpha s)) / of_int (sum_list (alpha s) + sum_list (beta s)),
                 Max (set (true_means s)) -
                   of_int (sum_list (alpha s)) / of_int (sum_list (alpha s) + sum_list (beta s))),
            s)"
  using assms by (simp add: ThompsonSampling_report_def max_list_Max Let_def)

theorem report_formula_witness:
  "ThompsonSampling_report (ThompsonSampling_init [1, 2, 3, 4]) =
     (Inr (1/2, 7/2), ThompsonSampling_init [1, 2, 3, 4])"
proof -
  let ?s = "ThompsonSampling_init [1, 2, 3, 4]"
  have h1: "true_means ?s \<noteq> []"
    by (simp add: ThompsonSampling_init_def Bandit_init_def Let_def)
  have h2: "sum_list (alpha ?s) + sum_list (beta ?s) \<noteq> 0"
    by (simp add: ThompsonSampling_init_def Bandit_init_def Let_def)
  have v: "sum_list (alpha ?s) = 4" "sum_list (beta ?s) = 4" "Max (set (true_means ?s)) = 4"
    by (simp_all add: ThompsonSampling_init_def Bandit_init_def Let_def)
  show ?thesis
    using report_formula [OF h1 h2] unfolding v by simp
qed

lemma ThompsonSampling_wf_sum_pos:
  assumes "ThompsonSampling_wf s" and "true_means s \<noteq> []"
  shows "0 < sum_list (alpha s) + sum_list (beta s)"
proof -
  have pos: "\<And>xs :: int list. xs \<noteq> [] \<Longrightarrow> list_all (\<lambda>a. 0 < a) xs \<Longrightarrow> 0 < sum_list xs"
  proof -
    fix xs :: "int list"
    show "xs \<noteq> [] \<Longrightarrow> list_all (\<lambda>a. 0 < a) xs \<Longrightarrow> 0 < sum_list xs"
    proof (induction xs)
      case Nil
      then show ?case by simp
    next
      case (Cons x xs)
      then show ?case by (cases xs) auto
    qed
  qed
  have "alpha s \<noteq> []" "beta s \<noteq> []"
    using assms by (auto simp: ThompsonSampling_wf_def)
  then have "0 < sum_list (alpha s)" "0 < sum_list (beta s)"
    using assms(1) pos by (simp_all add: ThompsonSampling_wf_def)
  then show ?thesis by simp
qed

text \<open>
  Claim C4, as stated, fails. Only \<open>alpha[0]\<close> changes in \<open>update(0, 1)\<close>: \<open>beta\<close>
  stays \<open>[1, 1]\<close>, so the sums are 3 and 2 and \<open>report\<close> does not compute 0.5 and 0.5.
\<close>

theorem scenario_counterexample:
  "fst (ThompsonSampling_report (snd (ThompsonSampling_update (ThompsonSampling_init [0, 1]) 0 1)))
     \<noteq> Inr (1/2, 1/2)"
  by (simp add: ThompsonSampling_report_def ThompsonSampling_update_def ThompsonSampling_init_def
      Bandit_init_def getitem_def setitem_def list_pos_def Let_def)

text \<open>
  Claim C4, amended. For ThompsonSampling constructed with \<open>true_means = [0, 1]\<close>, the
  call \<open>update(0, 1)\<close> returns normally and leaves \<open>alpha = [2, 1]\<close>, \<open>beta = [1, 1]\<close>; the
  report then computes \<open>avg_reward = 3/5\<close> and \<open>avg_regret = 2/5\<close>.
\<close>

theorem scenario_report:
  "fst (ThompsonSampling_update (ThompsonSampling_init [0, 1]) 0 1) = Inr () \<and>
   alpha (snd (ThompsonSampling_update (ThompsonSampling_init [0, 1]) 0 1)) = [2, 1] \<and>
   beta (snd (ThompsonSampling_update (ThompsonSampling_init [0, 1]) 0 1)) = [1, 1] \<and>
   fst (ThompsonSampling_report (snd (ThompsonSampling_update (ThompsonSampling_init [0, 1]) 0 1)))
     = Inr (3/5, 2/5)"
  by (simp add: ThompsonSampling_report_def ThompsonSampling_update_def ThompsonSampling_init_def
      Bandit_init_def getitem_def setitem_def list_pos_def Let_def)

section \<open>update and arm indices out of range\<close>

text \<open>
  Claim C6, as stated, fails. The index \<open>-1\<close> lies outside \<open>[0, K)\<close>, yet with two arms
  \<open>update(-1, 5)\<close> of EpsilonGreedy and \<open>update(-1, 1)\<close> of ThompsonSampling return
  normally and change the entries of arm 1.
\<close>

theorem negative_arm_counterexample:
  "EpsilonGreedy_update (EpsilonGreedy_init [1, 2] (1/5)) (- 1) 5 =
     (Inr (), (EpsilonGreedy_init [1, 2] (1/5))\<lparr>action_counts := [0, 1], action_values := [0, 5]\<rparr>) \<and>
   ThompsonSampling_update (ThompsonSampling_init [1, 2]) (- 1) 1 =
     (Inr (), (ThompsonSampling_init [1, 2])\<lparr>alpha := [1, 2]\<rparr>)"
  by (simp add: EpsilonGreedy_update_def ThompsonSampling_update_def EpsilonGreedy_init_def
      ThompsonSampling_init_def Bandit_init_def getitem_def setitem_def list_pos_def Let_def)

text \<open>
  Claim C6, amended. On well-formed objects of either policy, \<open>update\<close> with an arm
  index below \<open>-K\<close> or at least \<open>K\<close> raises IndexError and leaves every field of the
  object as it was. An index from \<open>-K\<close> up to \<open>-1\<close> is not rejected: the call behaves
  exactly as \<open>update\<close> with the index \<open>arm + K\<close>.
\<close>

theorem update_arm_index:
  assumes eg: "EpsilonGreedy_wf s" and ts: "ThompsonSampling_wf t"
    and ks: "int (length (true_means s)) = K" and kt: "int (length (true_means t)) = K"
  shows "(arm < - K \<or> K \<le> arm \<longrightarrow>
            EpsilonGreedy_update s arm reward = (Inl IndexError, s) \<and>
            ThompsonSampling_update t arm reward = (Inl IndexError, t)) \<and>
         (- K \<le> arm \<and> arm < 0 \<longrightarrow>
            EpsilonGreedy_update s arm reward = EpsilonGreedy_update s (arm + K) reward \<and>
            ThompsonSampling_update t arm reward = ThompsonSampling_update t (arm + K) reward)"
proof (intro conjI impI)
  have ls: "int (length (action_counts s)) = K" "length (action_values s) = length (action_counts s)"
    using eg ks by (simp_all add: EpsilonGreedy_wf_def)
  have lt: "int (length (alpha t)) = K" "length (beta t) = length (alpha t)"
    using ts kt by (simp_all add: ThompsonSampling_wf_def)
  {
    assume out: "arm < - K \<or> K \<le> arm"
    have "list_pos (action_counts s) arm = Inl IndexError"
      using out ls(1) by (intro list_pos_outside) simp
    then show "EpsilonGreedy_update s arm reward = (Inl IndexError, s)"
      by (rule EpsilonGreedy_update_IndexError)
    have "list_pos (alpha t) arm = Inl IndexError"
      using out lt(1) by (intro list_pos_outside) simp
    with lt(2) show "ThompsonSampling_update t arm reward = (Inl IndexError, t)"
      by (rule ThompsonSampling_update_IndexError)
  }
  {
    assume neg: "- K \<le> arm \<and> arm < 0"
    let ?p = "nat (arm + K)"
    have same: "list_pos xs arm = Inr ?p \<and> list_pos xs (arm + K) = Inr ?p"
      if "int (length xs) = K" for xs :: "'a list"
      using neg that by (simp add: list_pos_def)
    note c = same [OF ls(1)]
    have "?p < length (action_counts s)"
      using neg ls(1) by linarith
    then have "0 \<le> action_counts s ! ?p"
      using eg by (simp add: EpsilonGreedy_wf_def list_all_length)
    then have nz: "action_counts s ! ?p + 1 \<noteq> 0"
      by simp
    show "EpsilonGreedy_update s arm reward = EpsilonGreedy_update s (arm + K) reward"
      using EpsilonGreedy_update_ok [OF ls(2) conjunct1 [OF c] nz, of reward]
        EpsilonGreedy_update_ok [OF ls(2) conjunct2 [OF c] nz, of reward]
      by simp
    note a = same [OF lt(1)]
    show "ThompsonSampling_update t arm reward = ThompsonSampling_update t (arm + K) reward"
      using ThompsonSampling_update_ok [OF lt(2) conjunct1 [OF a], of reward]
        ThompsonSampling_update_ok [OF lt(2) conjunct2 [OF a], of reward]
      by simp
  }
qed

theorem update_arm_index_witness:
  "EpsilonGreedy_update (EpsilonGreedy_init [1, 2] (1/5)) 2 5 = (Inl IndexError, EpsilonGreedy_init [1, 2] (1/5)) \<and>
   ThompsonSampling_update (ThompsonSampling_init [1, 2]) 2 5 = (Inl IndexError, ThompsonSampling_init [1, 2]) \<and>
   EpsilonGreedy_update (EpsilonGreedy_init [1, 2] (1/5)) (- 1) 5 =
     EpsilonGreedy_update (EpsilonGreedy_init [1, 2] (1/5)) 1 5 \<and>
   ThompsonSampling_update (ThompsonSampling_init [1, 2]) (- 1) 5 =
     ThompsonSampling_update (ThompsonSampling_init [1, 2]) 1 5"
proof -
  let ?s = "EpsilonGreedy_init [1, 2] (1/5)" and ?t = "ThompsonSampling_init [1, 2]"
  have ks: "int (length (true_means ?s)) = 2"
    by (simp add: EpsilonGreedy_init_def Let_def)
  have kt: "int (length (true_means ?t)) = 2"
    by (simp add: ThompsonSampling_init_def Bandit_init_def Let_def)
  note r = update_arm_index [OF EpsilonGreedy_init_wf ThompsonSampling_init_wf ks kt]
  from r [of 2 5] r [of "- 1" 5] show ?thesis
    by simp
qed

section \<open>Greedy selection\<close>

text \<open>
  Claim C7. With \<open>epsilon = 0\<close> and at least one arm, \<open>pull\<close> of EpsilonGreedy returns,
  whatever the random draws are, the smallest index at which \<open>action_values\<close> attains
  its maximum, and leaves the object unchanged.
\<close>

theorem greedy_pull_first_argmax:
  assumes eps: "epsilon s = 0" and arms: "action_values s \<noteq> []"
  shows "\<exists>i < length (action_values s).
           EpsilonGreedy_pull s d = (Inr (int i), s) \<and>
           action_values s ! i = Max (set (action_values s)) \<and>
           (\<forall>j < i. action_values s ! j < Max (set (action_values s)))"
proof -
  let ?vs = "action_values s" and ?m = "Max (set (action_values s))"
  have no_explore: "\<not> random_random (fst d) < epsilon s"
    using random_random_range [of "fst d"] eps by simp
  have m: "max_list ?vs = Inr ?m"
    using arms by (rule max_list_Max)
  have "?m \<in> set ?vs"
    using arms by (intro Max_in) simp_all
  from list_index_first [OF this]
  obtain i where i: "i < length ?vs" "list_index ?vs ?m = Inr (int i)" "?vs ! i = ?m"
    "\<forall>j < i. ?vs ! j \<noteq> ?m" by blast
  have below: "?vs ! j < ?m" if "j < i" for j
  proof -
    have "?vs ! j \<in> set ?vs" using that i(1) by simp
    then have "?vs ! j \<le> ?m" by simp
    moreover have "?vs ! j \<noteq> ?m" using i(4) that by simp
    ultimately show ?thesis by simp
  qed
  have "EpsilonGreedy_pull s d = (Inr (int i), s)"
    using no_explore m i(2) by (simp add: EpsilonGreedy_pull_def)
  then show ?thesis
    using i(1) i(3) below by blast
qed

theorem greedy_pull_first_argmax_witness:
  "EpsilonGreedy_pull \<lparr>true_means = [1, 2, 3], estimated_means = [0, 0, 0],
      action_counts = [1, 2, 1], epsilon = 0, action_values = [1, 3, 3]\<rparr> (1/2, 7) =
    (Inr 1, \<lparr>true_means = [1, 2, 3], estimated_means = [0, 0, 0],
      action_counts = [1, 2, 1], epsilon = 0, action_values = [1, 3, 3]\<rparr>)"
proof -
  let ?s = "\<lparr>true_means = [1, 2, 3], estimated_means = [0, 0, 0],
      action_counts = [1, 2, 1], epsilon = 0, action_values = [1, 3, 3 :: rat]\<rparr>"
  have h1: "epsilon ?s = 0" by simp
  have h2: "action_values ?s \<noteq> []" by simp
  from greedy_pull_first_argmax [OF h1 h2, of "(1/2, 7)"]
  obtain i where i: "i < 3" "EpsilonGreedy_pull ?s (1/2, 7) = (Inr (int i), ?s)"
    "[1, 3, 3 :: rat] ! i = 3" "\<forall>j < i. [1, 3, 3 :: rat] ! j < 3"
    by auto
  have "\<not> 1 < i"
  proof
    assume "1 < i"
    with i(4) have "[1, 3, 3 :: rat] ! 1 < 3" by blast
    then show False by simp
  qed
  moreover have "i \<noteq> 0"
    using i(3) by (cases "i = 0") simp_all
  ultimately have "i = 1"
    by linarith
  with i(2) show ?thesis by simp
qed

section \<open>Cumulative regret\<close>

lemma sum_list_bounded_above:
  fixes rs :: "rat list"
  assumes "\<forall>r \<in> set rs. r \<le> m"
  shows "sum_list rs \<le> m * of_nat (length rs)"
  using assms
proof (induction rs)
  case Nil
  then show ?case by simp
next
  case (Cons r rs)
  then have "r \<le> m" and "sum_list rs \<le> m * of_nat (length rs)"
    by simp_all
  then show ?case
    by (simp add: algebra_simps)
qed

text \<open>
  Claim C9. With a non-empty \<open>true_means\<close>, the reporter returns normally and each
  cumulative regret it computes is \<open>max(true_means) * n - sum(rewards)\<close> for the
  reward sequence of length \<open>n\<close> it was given; when every entry of that sequence is at
  most \<open>max(true_means)\<close>, the regret is not negative.
\<close>

theorem cumulative_regret_nonneg:
  assumes tm: "tm \<noteq> []"
    and eg: "\<forall>r \<in> set epsilon_greedy_rewards. r \<le> Max (set tm)"
    and ts: "\<forall>r \<in> set thompson_rewards. r \<le> Max (set tm)"
  shows "\<exists>eg_regret ts_regret.
           report_cumulative_reward_and_regret tm epsilon_greedy_rewards thompson_rewards =
             Inr (sum_list epsilon_greedy_rewards, sum_list thompson_rewards, eg_regret, ts_regret) \<and>
           eg_regret = Max (set tm) * of_nat (length epsilon_greedy_rewards) - sum_list epsilon_greedy_rewards \<and>
           ts_regret = Max (set tm) * of_nat (length thompson_rewards) - sum_list thompson_rewards \<and>
           0 \<le> eg_regret \<and> 0 \<le> ts_regret"
  using sum_list_bounded_above [OF eg] sum_list_bounded_above [OF ts] max_list_Max [OF tm]
  by (simp add: report_cumulative_reward_and_regret_def Let_def)

theorem cumulative_regret_nonneg_witness:
  "report_cumulative_reward_and_regret module_true_means [1, 4, 4] [2, 3] = Inr (9, 5, 3, 3)"
proof -
  have m: "Max (set module_true_means) = 4"
    by (simp add: module_true_means_def)
  have h0: "module_true_means \<noteq> []"
    by (simp add: module_true_means_def)
  have h1: "\<forall>r \<in> set [1, 4, 4 :: rat]. r \<le> Max (set module_true_means)"
    unfolding m by simp
  have h2: "\<forall>r \<in> set [2, 3 :: rat]. r \<le> Max (set module_true_means)"
    unfolding m by simp
  from cumulative_regret_nonneg [OF h0 h1 h2] show ?thesis
    unfolding m by auto
qed

section \<open>estimated_means is never written\<close>

lemma EpsilonGreedy_update_estimated_means:
  "estimated_means (snd (EpsilonGreedy_update s arm reward)) = estimated_means s"
  by (simp add: EpsilonGreedy_update_def Let_def split: sum.splits)

lemma EpsilonGreedy_trial_estimated_means:
  "estimated_means (snd (EpsilonGreedy_trial s d)) = estimated_means s"
proof -
  have p: "snd (EpsilonGreedy_pull s d) = s"
    by (simp add: EpsilonGreedy_pull_def split: sum.splits)
  show ?thesis
  proof (cases "EpsilonGreedy_pull s d")
    case (Pair r s1)
    with p have s1: "s1 = s" by simp
    show ?thesis
    proof (cases r)
      case (Inl e)
      with Pair s1 show ?thesis by (simp add: EpsilonGreedy_trial_def)
    next
      case (Inr arm)
      show ?thesis
      proof (cases "getitem (true_means s) arm")
        case (Inl e)
        with Pair Inr s1 show ?thesis by (simp add: EpsilonGreedy_trial_def)
      next
        case rw: (Inr reward)
        have "estimated_means (snd (EpsilonGreedy_update s arm reward)) = estimated_means s"
          by (rule EpsilonGreedy_update_estimated_means)
        with Pair Inr s1 rw show ?thesis
          by (auto simp: EpsilonGreedy_trial_def split: prod.splits sum.splits)
      qed
    qed
  qed
qed

lemma EpsilonGreedy_trials_estimated_means:
  "estimated_means (snd (EpsilonGreedy_trials s tape n)) = estimated_means s"
proof (induction n)
  case 0
  then show ?case by simp
next
  case (Suc n)
  show ?case
  proof (cases "EpsilonGreedy_trials s tape n")
    case (Pair r s1)
    with Suc have s1: "estimated_means s1 = estimated_means s" by simp
    show ?thesis
    proof (cases r)
      case (Inl e)
      with Pair s1 show ?thesis by simp
    next
      case (Inr rewards)
      have "estimated_means (snd (EpsilonGreedy_trial s1 (tape n))) = estimated_means s1"
        by (rule EpsilonGreedy_trial_estimated_means)
      with Pair Inr s1 show ?thesis
        by (auto split: prod.splits sum.splits)
    qed
  qed
qed

lemma EpsilonGreedy_call_estimated_means:
  "estimated_means (EpsilonGreedy_call s c) = estimated_means s"
proof (cases c)
  case (EG_pull d)
  then show ?thesis by (simp add: EpsilonGreedy_pull_def split: sum.splits)
next
  case (EG_update arm reward)
  then show ?thesis by (simp add: EpsilonGreedy_update_estimated_means)
next
  case (EG_experiment tape n)
  then show ?thesis
    by (simp add: EpsilonGreedy_experiment_def EpsilonGreedy_trials_estimated_means)
next
  case EG_report
  then show ?thesis by (simp add: EpsilonGreedy_report_def Let_def split: sum.splits)
qed

lemma ThompsonSampling_update_estimated_means:
  "estimated_means (snd (ThompsonSampling_update s arm reward)) = estimated_means s"
  by (simp add: ThompsonSampling_update_def split: sum.splits)

lemma ThompsonSampling_trial_estimated_means:
  "estimated_means (snd (ThompsonSampling_trial s d)) = estimated_means s"
proof -
  have p: "snd (ThompsonSampling_pull s d) = s"
    by (simp add: ThompsonSampling_pull_def split: sum.splits)
  show ?thesis
  proof (cases "ThompsonSampling_pull s d")
    case (Pair r s1)
    with p have s1: "s1 = s" by simp
    show ?thesis
    proof (cases r)
      case (Inl e)
      with Pair s1 show ?thesis by (simp add: ThompsonSampling_trial_def)
    next
      case (Inr arm)
      show ?thesis
      proof (cases "getitem (true_means s) arm")
        case (Inl e)
        with Pair Inr s1 show ?thesis by (simp add: ThompsonSampling_trial_def)
      next
        case rw: (Inr reward)
        have "estimated_means (snd (ThompsonSampling_update s arm reward)) = estimated_means s"
          by (rule ThompsonSampling_update_estimated_means)
        with Pair Inr s1 rw show ?thesis
          by (auto simp: ThompsonSampling_trial_def split: prod.splits sum.splits)
      qed
    qed
  qed
qed

lemma ThompsonSampling_trials_estimated_means:
  "estimated_means (snd (ThompsonSampling_trials s tape n)) = estimated_means s"
proof (induction n)
  case 0
  then show ?case by simp
next
  case (Suc n)
  show ?case
  proof (cases "ThompsonSampling_trials s tape n")
    case (Pair r s1)
    with Suc have s1: "estimated_means s1 = estimated_means s" by simp
    show ?thesis
    proof (cases r)
      case (Inl e)
      with Pair s1 show ?thesis by simp
    next
      case (Inr rewards)
      have "estimated_means (snd (ThompsonSampling_trial s1 (tape n))) = estimated_means s1"
        by (rule ThompsonSampling_trial_estimated_means)
      with Pair Inr s1 show ?thesis
        by (auto split: prod.splits sum.splits)
    qed
  qed
qed

lemma ThompsonSampling_call_estimated_means:
  "estimated_means (ThompsonSampling_call s c) = estimated_means s"
proof (cases c)
  case (TS_pull d)
  then show ?thesis by (simp add: ThompsonSampling_pull_def split: sum.splits)
next
  case (TS_update arm reward)
  then show ?thesis by (simp add: ThompsonSampling_update_estimated_means)
next
  case (TS_experiment tape n)
  then show ?thesis
    by (simp add: ThompsonSampling_experiment_def ThompsonSampling_trials_estimated_means)
next
  case TS_report
  then show ?thesis by (simp add: ThompsonSampling_report_def Let_def split: sum.splits)
qed

lemma foldl_EpsilonGreedy_call_estimated_means:
  "estimated_means (foldl EpsilonGreedy_call s cs) = estimated_means s"
  by (induction cs arbitrary: s) (simp_all add: EpsilonGreedy_call_estimated_means)

lemma foldl_ThompsonSampling_call_estimated_means:
  "estimated_means (foldl ThompsonSampling_call s cs) = estimated_means s"
  by (induction cs arbitrary: s) (simp_all add: ThompsonSampling_call_estimated_means)

text \<open>
  Claim C10. \<open>estimated_means\<close> is created as \<open>K\<close> zeros by the constructor of either
  policy, and after any sequence of \<open>pull\<close>, \<open>update\<close>, \<open>experiment\<close> and \<open>report\<close>
  calls, with any arguments and whether or not a call raised, it is still \<open>K\<close> zeros.
\<close>

theorem estimated_means_stays_zero:
  "estimated_means (EpsilonGreedy_init tm eps) = replicate (length tm) 0 \<and>
   estimated_means (foldl EpsilonGreedy_call (EpsilonGreedy_init tm eps) eg_calls) =
     replicate (length tm) 0 \<and>
   estimated_means (ThompsonSampling_init tm) = replicate (length tm) 0 \<and>
   estimated_means (foldl ThompsonSampling_call (ThompsonSampling_init tm) ts_calls) =
     replicate (length tm) 0"
  by (simp add: foldl_EpsilonGreedy_call_estimated_means foldl_ThompsonSampling_call_estimated_means
      EpsilonGreedy_init_def ThompsonSampling_init_def Bandit_init_def Let_def)

section \<open>The experiment loop\<close>

lemma getitem_inside:
  "0 \<le> i \<Longrightarrow> i < int (length xs) \<Longrightarrow> getitem xs i = Inr (xs ! nat i)"
  by (simp add: getitem_def list_pos_inside)

lemma EpsilonGreedy_pull_in_range:
  assumes wf: "EpsilonGreedy_wf s" and arms: "true_means s \<noteq> []"
  shows "\<exists>arm. EpsilonGreedy_pull s d = (Inr arm, s) \<and> 0 \<le> arm \<and> arm < int (length (true_means s))"
proof (cases "random_random (fst d) < epsilon s")
  case True
  let ?K = "int (length (true_means s))"
  have "0 < ?K" using arms by simp
  then have "\<not> ?K - 1 < 0" by simp
  then obtain j where j: "randint 0 (?K - 1) (snd d) = Inr j"
    by (auto simp: randint_def)
  from randint_range [OF j] have "0 \<le> j" "j < ?K" by simp_all
  with True j show ?thesis
    by (simp add: EpsilonGreedy_pull_def)
next
  case False
  let ?vs = "action_values s"
  have len: "length ?vs = length (true_means s)"
    using wf by (simp add: EpsilonGreedy_wf_def)
  with arms have ne: "?vs \<noteq> []" by auto
  have m: "max_list ?vs = Inr (Max (set ?vs))"
    using ne by (rule max_list_Max)
  have "Max (set ?vs) \<in> set ?vs"
    using ne by (intro Max_in) simp_all
  from list_index_first [OF this]
  obtain i where "i < length ?vs" "list_index ?vs (Max (set ?vs)) = Inr (int i)"
    by blast
  with False m len show ?thesis
    by (simp add: EpsilonGreedy_pull_def)
qed

lemma EpsilonGreedy_trial_ok:
  assumes wf: "EpsilonGreedy_wf s" and arms: "true_means s \<noteq> []"
  shows "\<exists>arm reward s'.
           EpsilonGreedy_pull s d = (Inr arm, s) \<and>
           0 \<le> arm \<and> arm < int (length (true_means s)) \<and>
           getitem (true_means s) arm = Inr reward \<and> reward \<in> set (true_means s) \<and>
           EpsilonGreedy_update s arm reward = (Inr (), s') \<and>
           EpsilonGreedy_trial s d = (Inr reward, s') \<and>
           EpsilonGreedy_wf s' \<and> true_means s' = true_means s"
proof -
  from EpsilonGreedy_pull_in_range [OF wf arms, of d]
  obtain arm where pull: "EpsilonGreedy_pull s d = (Inr arm, s)"
    and lo: "0 \<le> arm" and hi: "arm < int (length (true_means s))"
    by blast
  let ?reward = "true_means s ! nat arm"
  have get: "getitem (true_means s) arm = Inr ?reward"
    using lo hi by (rule getitem_inside)
  have mem: "?reward \<in> set (true_means s)"
    using lo hi by simp
  from EpsilonGreedy_update_wf [OF wf lo hi, of ?reward]
  obtain s' where upd: "EpsilonGreedy_update s arm ?reward = (Inr (), s')"
    and wf': "EpsilonGreedy_wf s'" and tm': "true_means s' = true_means s"
    by blast
  have "EpsilonGreedy_trial s d = (Inr ?reward, s')"
    by (simp add: EpsilonGreedy_trial_def pull get upd)
  with pull lo hi get mem upd wf' tm' show ?thesis
    by blast
qed

lemma EpsilonGreedy_trials_ok:
  assumes wf: "EpsilonGreedy_wf s" and arms: "true_means s \<noteq> []"
  shows "\<exists>rewards s'.
           EpsilonGreedy_trials s tape n = (Inr rewards, s') \<and> length rewards = n \<and>
           set rewards \<subseteq> set (true_means s) \<and>
           EpsilonGreedy_wf s' \<and> true_means s' = true_means s \<and>
           (\<forall>k < n. \<exists>arm.
              EpsilonGreedy_pull (EpsilonGreedy_before s tape k) (tape k) =
                (Inr arm, EpsilonGreedy_before s tape k) \<and>
              getitem (true_means (EpsilonGreedy_before s tape k)) arm = Inr (rewards ! k) \<and>
              EpsilonGreedy_update (EpsilonGreedy_before s tape k) arm (rewards ! k) =
                (Inr (), EpsilonGreedy_before s tape (Suc k)))"
proof (induction n)
  case 0
  show ?case using wf by simp
next
  case (Suc n)
  then obtain rewards s1 where run: "EpsilonGreedy_trials s tape n = (Inr rewards, s1)"
    and len: "length rewards = n" and sub: "set rewards \<subseteq> set (true_means s)"
    and wf1: "EpsilonGreedy_wf s1" and tm1: "true_means s1 = true_means s"
    and each: "\<forall>k < n. \<exists>arm.
              EpsilonGreedy_pull (EpsilonGreedy_before s tape k) (tape k) =
                (Inr arm, EpsilonGreedy_before s tape k) \<and>
              getitem (true_means (EpsilonGreedy_before s tape k)) arm = Inr (rewards ! k) \<and>
              EpsilonGreedy_update (EpsilonGreedy_before s tape k) arm (rewards ! k) =
                (Inr (), EpsilonGreedy_before s tape (Suc k))"
    by blast
  have arms1: "true_means s1 \<noteq> []" using arms tm1 by simp
  from EpsilonGreedy_trial_ok [OF wf1 arms1, of "tape n"]
  obtain arm reward s2 where pull: "EpsilonGreedy_pull s1 (tape n) = (Inr arm, s1)"
    and get: "getitem (true_means s1) arm = Inr reward" and mem: "reward \<in> set (true_means s1)"
    and upd: "EpsilonGreedy_update s1 arm reward = (Inr (), s2)"
    and trial: "EpsilonGreedy_trial s1 (tape n) = (Inr reward, s2)"
    and wf2: "EpsilonGreedy_wf s2" and tm2: "true_means s2 = true_means s1"
    by blast
  let ?rewards = "rewards @ [reward]"
  have run': "EpsilonGreedy_trials s tape (Suc n) = (Inr ?rewards, s2)"
    by (simp add: run trial)
  have before_n: "EpsilonGreedy_before s tape n = s1"
    and before_Suc: "EpsilonGreedy_before s tape (Suc n) = s2"
    using run run' by (simp_all add: EpsilonGreedy_before_def)
  have "\<exists>arm.
          EpsilonGreedy_pull (EpsilonGreedy_before s tape k) (tape k) =
            (Inr arm, EpsilonGreedy_before s tape k) \<and>
          getitem (true_means (EpsilonGreedy_before s tape k)) arm = Inr (?rewards ! k) \<and>
          EpsilonGreedy_update (EpsilonGreedy_before s tape k) arm (?rewards ! k) =
            (Inr (), EpsilonGreedy_before s tape (Suc k))"
    if k: "k < Suc n" for k
  proof (cases "k < n")
    case True
    then have "?rewards ! k = rewards ! k"
      using len by (simp add: nth_append)
    with each True show ?thesis by simp
  next
    case False
    with k have kn: "k = n" by simp
    then have "?rewards ! k = reward"
      using len by (simp add: nth_append)
    with kn before_n before_Suc pull get upd show ?thesis
      by simp
  qed
  then have each': "\<forall>k < Suc n. \<exists>arm.
          EpsilonGreedy_pull (EpsilonGreedy_before s tape k) (tape k) =
            (Inr arm, EpsilonGreedy_before s tape k) \<and>
          getitem (true_means (EpsilonGreedy_before s tape k)) arm = Inr (?rewards ! k) \<and>
          EpsilonGreedy_update (EpsilonGreedy_before s tape k) arm (?rewards ! k) =
            (Inr (), EpsilonGreedy_before s tape (Suc k))"
    by blast
  have "length ?rewards = Suc n" using len by simp
  moreover have "set ?rewards \<subseteq> set (true_means s)" using sub mem tm1 by simp
  moreover have "true_means s2 = true_means s" using tm2 tm1 by simp
  ultimately show ?case
    using run' wf2 each' by blast
qed

lemma sampled_means_ok:
  assumes wf: "ThompsonSampling_wf s" and "\<forall>i \<in> set is. i < length (true_means s)"
  shows "sampled_means s d is = Inr (map d is)"
  using assms(2)
proof (induction "is")
  case Nil
  show ?case by simp
next
  case (Cons i "is")
  have la: "length (alpha s) = length (true_means s)"
    and lb: "length (beta s) = length (true_means s)"
    and pa: "\<forall>i < length (alpha s). 0 < alpha s ! i"
    and pb: "\<forall>i < length (beta s). 0 < beta s ! i"
    using wf by (simp_all add: ThompsonSampling_wf_def list_all_length)
  have i: "i < length (true_means s)" using Cons.prems by simp
  have ga: "getitem (alpha s) (int i) = Inr (alpha s ! i)"
    using getitem_inside [of "int i" "alpha s"] i la by simp
  have gb: "getitem (beta s) (int i) = Inr (beta s ! i)"
    using getitem_inside [of "int i" "beta s"] i lb by simp
  have "0 < alpha s ! i" "0 < beta s ! i"
    using pa pb i la lb by simp_all
  then have bv: "betavariate (alpha s ! i) (beta s ! i) (d i) = Inr (d i)"
    by (simp add: betavariate_def)
  have "sampled_means s d is = Inr (map d is)"
    using Cons by simp
  then show ?case
    by (simp add: ga gb bv)
qed

lemma ThompsonSampling_pull_in_range:
  assumes wf: "ThompsonSampling_wf s" and arms: "true_means s \<noteq> []"
  shows "\<exists>arm. ThompsonSampling_pull s d = (Inr arm, s) \<and> 0 \<le> arm \<and> arm < int (length (true_means s))"
proof -
  let ?xs = "map d [0 ..< length (true_means s)]"
  have sm: "sampled_means s d [0 ..< length (true_means s)] = Inr ?xs"
    using wf by (rule sampled_means_ok) simp
  have ne: "?xs \<noteq> []" using arms by simp
  have m: "max_list ?xs = Inr (Max (set ?xs))"
    using ne by (rule max_list_Max)
  have "Max (set ?xs) \<in> set ?xs"
    using ne by (intro Max_in) simp_all
  from list_index_first [OF this]
  obtain i where "i < length ?xs" "list_index ?xs (Max (set ?xs)) = Inr (int i)"
    by blast
  then show ?thesis
    using sm m by (simp add: ThompsonSampling_pull_def)
qed

lemma ThompsonSampling_trial_ok:
  assumes wf: "ThompsonSampling_wf s" and arms: "true_means s \<noteq> []"
  shows "\<exists>arm reward s'.
           ThompsonSampling_pull s d = (Inr arm, s) \<and>
           0 \<le> arm \<and> arm < int (length (true_means s)) \<and>
           getitem (true_means s) arm = Inr reward \<and> reward \<in> set (true_means s) \<and>
           ThompsonSampling_update s arm reward = (Inr (), s') \<and>
           ThompsonSampling_trial s d = (Inr reward, s') \<and>
           ThompsonSampling_wf s' \<and> true_means s' = true_means s"
proof -
  from ThompsonSampling_pull_in_range [OF wf arms, of d]
  obtain arm where pull: "ThompsonSampling_pull s d = (Inr arm, s)"
    and lo: "0 \<le> arm" and hi: "arm < int (length (true_means s))"
    by blast
  let ?reward = "true_means s ! nat arm"
  have get: "getitem (true_means s) arm = Inr ?reward"
    using lo hi by (rule getitem_inside)
  have mem: "?reward \<in> set (true_means s)"
    using lo hi by simp
  from ThompsonSampling_update_wf [OF wf lo hi, of ?reward]
  obtain s' where upd: "ThompsonSampling_update s arm ?reward = (Inr (), s')"
    and wf': "ThompsonSampling_wf s'" and tm': "true_means s' = true_means s"
    by blast
  have "ThompsonSampling_trial s d = (Inr ?reward, s')"
    by (simp add: ThompsonSampling_trial_def pull get upd)
  with pull lo hi get mem upd wf' tm' show ?thesis
    by blast
qed

lemma ThompsonSampling_trials_ok:
  assumes wf: "ThompsonSampling_wf s" and arms: "true_means s \<noteq> []"
  shows "\<exists>rewards s'.
           ThompsonSampling_trials s tape n = (Inr rewards, s') \<and> length rewards = n \<and>
           set rewards \<subseteq> set (true_means s) \<and>
           ThompsonSampling_wf s' \<and> true_means s' = true_means s \<and>
           (\<forall>k < n. \<exists>arm.
              ThompsonSampling_pull (ThompsonSampling_before s tape k) (tape k) =
                (Inr arm, ThompsonSampling_before s tape k) \<and>
              getitem (true_means (ThompsonSampling_before s tape k)) arm = Inr (rewards ! k) \<and>
              ThompsonSampling_update (ThompsonSampling_before s tape k) arm (rewards ! k) =
                (Inr (), ThompsonSampling_before s tape (Suc k)))"
proof (induction n)
  case 0
  show ?case using wf by simp
next
  case (Suc n)
  then obtain rewards s1 where run: "ThompsonSampling_trials s tape n = (Inr rewards, s1)"
    and len: "length rewards = n" and sub: "set rewards \<subseteq> set (true_means s)"
    and wf1: "ThompsonSampling_wf s1" and tm1: "true_means s1 = true_means s"
    and each: "\<forall>k < n. \<exists>arm.
              ThompsonSampling_pull (ThompsonSampling_before s tape k) (tape k) =
                (Inr arm, ThompsonSampling_before s tape k) \<and>
              getitem (true_means (ThompsonSampling_before s tape k)) arm = Inr (rewards ! k) \<and>
              ThompsonSampling_update (ThompsonSampling_before s tape k) arm (rewards ! k) =
                (Inr (), ThompsonSampling_before s tape (Suc k))"
    by blast
  have arms1: "true_means s1 \<noteq> []" using arms tm1 by simp
  from ThompsonSampling_trial_ok [OF wf1 arms1, of "tape n"]
  obtain arm reward s2 where pull: "ThompsonSampling_pull s1 (tape n) = (Inr arm, s1)"
    and get: "getitem (true_means s1) arm = Inr reward" and mem: "reward \<in> set (true_means s1)"
    and upd: "ThompsonSampling_update s1 arm reward = (Inr (), s2)"
    and trial: "ThompsonSampling_trial s1 (tape n) = (Inr reward, s2)"
    and wf2: "ThompsonSampling_wf s2" and tm2: "true_means s2 = true_means s1"
    by blast
  let ?rewards = "rewards @ [reward]"
  have run': "ThompsonSampling_trials s tape (Suc n) = (Inr ?rewards, s2)"
    by (simp add: run trial)
  have before_n: "ThompsonSampling_before s tape n = s1"
    and before_Suc: "ThompsonSampling_before s tape (Suc n) = s2"
    using run run' by (simp_all add: ThompsonSampling_before_def)
  have "\<exists>arm.
          ThompsonSampling_pull (ThompsonSampling_before s tape k) (tape k) =
            (Inr arm, ThompsonSampling_before s tape k) \<and>
          getitem (true_means (ThompsonSampling_before s tape k)) arm = Inr (?rewards ! k) \<and>
          ThompsonSampling_update (ThompsonSampling_before s tape k) arm (?rewards ! k) =
            (Inr (), ThompsonSampling_before s tape (Suc k))"
    if k: "k < Suc n" for k
  proof (cases "k < n")
    case True
    then have "?rewards ! k = rewards ! k"
      using len by (simp add: nth_append)
    with each True show ?thesis by simp
  next
    case False
    with k have kn: "k = n" by simp
    then have "?rewards ! k = reward"
      using len by (simp add: nth_append)
    with kn before_n before_Suc pull get upd show ?thesis
      by simp
  qed
  then have each': "\<forall>k < Suc n. \<exists>arm.
          ThompsonSampling_pull (ThompsonSampling_before s tape k) (tape k) =
            (Inr arm, ThompsonSampling_before s tape k) \<and>
          getitem (true_means (ThompsonSampling_before s tape k)) arm = Inr (?rewards ! k) \<and>
          ThompsonSampling_update (ThompsonSampling_before s tape k) arm (?rewards ! k) =
            (Inr (), ThompsonSampling_before s tape (Suc k))"
    by blast
  have "length ?rewards = Suc n" using len by simp
  moreover have "set ?rewards \<subseteq> set (true_means s)" using sub mem tm1 by simp
  moreover have "true_means s2 = true_means s" using tm2 tm1 by simp
  ultimately show ?case
    using run' wf2 each' by blast
qed

text \<open>
  Claim C5. On a well-formed object of either policy with at least one arm, and for
  every \<open>num_trials\<close> that is not negative and every outcome of the random draws,
  \<open>experiment(num_trials)\<close> returns normally a list of exactly \<open>num_trials\<close> rewards,
  each of them an element of \<open>true_means\<close>. Pass \<open>k\<close> of the loop calls \<open>pull\<close> on the
  object as it finds it and gets an arm, reads \<open>true_means[arm]\<close>, which is the
  \<open>k\<close>-th reward returned, and calls \<open>update(arm, reward)\<close>, which returns normally
  and produces the object that pass \<open>k + 1\<close> finds.
\<close>

theorem experiment_rewards:
  assumes eg: "EpsilonGreedy_wf s" "true_means s \<noteq> []"
    and ts: "ThompsonSampling_wf t" "true_means t \<noteq> []"
    and n: "0 \<le> num_trials"
  shows "(\<exists>rewards s'.
            EpsilonGreedy_experiment s tape num_trials = (Inr rewards, s') \<and>
            int (length rewards) = num_trials \<and>
            set rewards \<subseteq> set (true_means s) \<and>
            (\<forall>k < length rewards. \<exists>arm.
               EpsilonGreedy_pull (EpsilonGreedy_before s tape k) (tape k) =
                 (Inr arm, EpsilonGreedy_before s tape k) \<and>
               getitem (true_means (EpsilonGreedy_before s tape k)) arm = Inr (rewards ! k) \<and>
               EpsilonGreedy_update (EpsilonGreedy_before s tape k) arm (rewards ! k) =
                 (Inr (), EpsilonGreedy_before s tape (Suc k)))) \<and>
         (\<exists>rewards t'.
            ThompsonSampling_experiment t samples num_trials = (Inr rewards, t') \<and>
            int (length rewards) = num_trials \<and>
            set rewards \<subseteq> set (true_means t) \<and>
            (\<forall>k < length rewards. \<exists>arm.
               ThompsonSampling_pull (ThompsonSampling_before t samples k) (samples k) =
                 (Inr arm, ThompsonSampling_before t samples k) \<and>
               getitem (true_means (ThompsonSampling_before t samples k)) arm = Inr (rewards ! k) \<and>
               ThompsonSampling_update (ThompsonSampling_before t samples k) arm (rewards ! k) =
                 (Inr (), ThompsonSampling_before t samples (Suc k))))"
proof
  from EpsilonGreedy_trials_ok [OF eg, of tape "nat num_trials"]
  obtain rewards s' where run: "EpsilonGreedy_trials s tape (nat num_trials) = (Inr rewards, s')"
    and len: "length rewards = nat num_trials"
    and sub: "set rewards \<subseteq> set (true_means s)"
    and each: "\<forall>k < nat num_trials. \<exists>arm.
              EpsilonGreedy_pull (EpsilonGreedy_before s tape k) (tape k) =
                (Inr arm, EpsilonGreedy_before s tape k) \<and>
              getitem (true_means (EpsilonGreedy_before s tape k)) arm = Inr (rewards ! k) \<and>
              EpsilonGreedy_update (EpsilonGreedy_before s tape k) arm (rewards ! k) =
                (Inr (), EpsilonGreedy_before s tape (Suc k))"
    by blast
  have "EpsilonGreedy_experiment s tape num_trials = (Inr rewards, s')"
    using run by (simp add: EpsilonGreedy_experiment_def)
  moreover have "int (length rewards) = num_trials"
    using len n by simp
  ultimately show "\<exists>rewards s'.
            EpsilonGreedy_experiment s tape num_trials = (Inr rewards, s') \<and>
            int (length rewards) = num_trials \<and>
            set rewards \<subseteq> set (true_means s) \<and>
            (\<forall>k < length rewards. \<exists>arm.
               EpsilonGreedy_pull (EpsilonGreedy_before s tape k) (tape k) =
                 (Inr arm, EpsilonGreedy_before s tape k) \<and>
               getitem (true_means (EpsilonGreedy_before s tape k)) arm = Inr (rewards ! k) \<and>
               EpsilonGreedy_update (EpsilonGreedy_before s tape k) arm (rewards ! k) =
                 (Inr (), EpsilonGreedy_before s tape (Suc k)))"
    using sub each len by auto
next
  from ThompsonSampling_trials_ok [OF ts, of samples "nat num_trials"]
  obtain rewards t' where run: "ThompsonSampling_trials t samples (nat num_trials) = (Inr rewards, t')"
    and len: "length rewards = nat num_trials"
    and sub: "set rewards \<subseteq> set (true_means t)"
    and each: "\<forall>k < nat num_trials. \<exists>arm.
              ThompsonSampling_pull (ThompsonSampling_before t samples k) (samples k) =
                (Inr arm, ThompsonSampling_before t samples k) \<and>
              getitem (true_means (ThompsonSampling_before t samples k)) arm = Inr (rewards ! k) \<and>
              ThompsonSampling_update (ThompsonSampling_before t samples k) arm (rewards ! k) =
                (Inr (), ThompsonSampling_before t samples (Suc k))"
    by blast
  have "ThompsonSampling_experiment t samples num_trials = (Inr rewards, t')"
    using run by (simp add: ThompsonSampling_experiment_def)
  moreover have "int (length rewards) = num_trials"
    using len n by simp
  ultimately show "\<exists>rewards t'.
            ThompsonSampling_experiment t samples num_trials = (Inr rewards, t') \<and>
            int (length rewards) = num_trials \<and>
            set rewards \<subseteq> set (true_means t) \<and>
            (\<forall>k < length rewards. \<exists>arm.
               ThompsonSampling_pull (ThompsonSampling_before t samples k) (samples k) =
                 (Inr arm, ThompsonSampling_before t samples k) \<and>
               getitem (true_means (ThompsonSampling_before t samples k)) arm = Inr (rewards ! k) \<and>
               ThompsonSampling_update (ThompsonSampling_before t samples k) arm (rewards ! k) =
                 (Inr (), ThompsonSampling_before t samples (Suc k)))"
    using sub each len by auto
qed

theorem experiment_rewards_witness:
  "(\<exists>rewards s'.
      EpsilonGreedy_experiment (EpsilonGreedy_init [1, 2, 3, 4] (1/5)) (\<lambda>k. (of_nat k / 3, k)) 3 =
        (Inr rewards, s') \<and>
      length rewards = 3 \<and> set rewards \<subseteq> {1, 2, 3, 4}) \<and>
   (\<exists>rewards t'.
      ThompsonSampling_experiment (ThompsonSampling_init [1, 2, 3, 4]) (\<lambda>k i. of_nat (k + i) / 7) 3 =
        (Inr rewards, t') \<and>
      length rewards = 3 \<and> set rewards \<subseteq> {1, 2, 3, 4})"
proof -
  let ?s = "EpsilonGreedy_init [1, 2, 3, 4] (1/5)" and ?t = "ThompsonSampling_init [1, 2, 3, 4]"
  have tm: "true_means ?s = [1, 2, 3, 4]" "true_means ?t = [1, 2, 3, 4]"
    by (simp_all add: EpsilonGreedy_init_def ThompsonSampling_init_def Bandit_init_def Let_def)
  have h1: "true_means ?s \<noteq> []" and h2: "true_means ?t \<noteq> []"
    unfolding tm by simp_all
  have h3: "0 \<le> (3::int)"
    by simp
  from experiment_rewards [OF EpsilonGreedy_init_wf h1 ThompsonSampling_init_wf h2 h3,
      of "\<lambda>k. (of_nat k / 3, k)" "\<lambda>k i. of_nat (k + i) / 7"]
  show ?thesis
    unfolding tm by (auto simp: subset_iff)
qed

text \<open>
  Two runs worked out in full: seven trials of EpsilonGreedy with \<open>epsilon = 1/2\<close> on the
  module's arms, and three trials of ThompsonSampling.
\<close>

lemma EpsilonGreedy_experiment_example:
  "EpsilonGreedy_experiment (EpsilonGreedy_init module_true_means (1/2)) (\<lambda>k. (of_nat k / 3, k)) 7 =
     (Inr [1, 2, 2, 4, 1, 4, 3],
      \<lparr>true_means = [1, 2, 3, 4], estimated_means = [0, 0, 0, 0],
       action_counts = [2, 2, 1, 2], epsilon = 1/2, action_values = [1, 2, 3, 4]\<rparr>)"
  by code_simp

lemma ThompsonSampling_experiment_example:
  "ThompsonSampling_experiment (ThompsonSampling_init module_true_means) (\<lambda>k i. of_nat (k + i) / 7) 3 =
     (Inr [4, 4, 4],
      \<lparr>true_means = [1, 2, 3, 4], estimated_means = [0, 0, 0, 0],
       action_counts = [0, 0, 0, 0], alpha = [1, 1, 1, 1], beta = [1, 1, 1, 4]\<rparr>)"
  by code_simp

end
